theory Spec2Isabelle
  imports Main "HOL-Library.Word"
begin

section \<open>JavaScript values\<close>

text \<open>
  A JavaScript string is a sequence of UTF-16 code units: \<open>length\<close>, \<open>trim\<close>,
  \<open>includes\<close> and a regular expression without the \<open>u\<close> flag all work on code units.
  \<open>ascii\<close> embeds an ASCII literal.
\<close>

type_synonym jschar = "16 word"
type_synonym jsstring = "jschar list"

definition ascii :: "string \<Rightarrow> jsstring" where
  "ascii s = map (\<lambda>c. of_nat (of_char c)) s"

text \<open>A thrown \<open>Error\<close>; the code only ever reads its \<open>message\<close>.\<close>

datatype js_error = JsError (message: jsstring)

text \<open>Template-literal interpolation of a non-negative integer (\<open>`HTTP ${res.status}`\<close>).\<close>

fun decimal :: "nat \<Rightarrow> jsstring" where
  "decimal n = (if n < 10 then [of_nat (48 + n)]
                else decimal (n div 10) @ [of_nat (48 + n mod 10)])"

text \<open>The argument object of a tool call is a JSON value.\<close>

datatype json = JNull | JBool bool | JNum int | JStr jsstring
  | JArr "json list" | JObj "(jsstring \<times> json) list"

section \<open>The outside world\<close>

text \<open>
  Every network operation is an oracle on an abstract world \<open>'w\<close>: it returns its
  outcome (\<open>Inl\<close> when the promise rejects) and the next world. The program state carries
  the world, a trace of the oracle calls made, and the module-level variables of the three
  source files.
\<close>

record http_response =
  status :: nat
  body :: "js_error + jsstring"

text \<open>\<open>Response.ok\<close> of the Fetch standard: the status is in the range 200 to 299.\<close>

definition res_ok :: "http_response \<Rightarrow> bool" where
  "res_ok res = (200 \<le> status res \<and> status res \<le> 299)"

text \<open>mcp.ts: \<open>interface SearchResult\<close>.\<close>

record SearchResult =
  content :: jsstring
  sources :: "jsstring list"

text \<open>A tool of the catalog, as \<open>client.listTools()\<close> returns it.\<close>

record mcp_tool =
  tool_name :: jsstring
  tool_description :: jsstring

text \<open>One element of the content array of a \<open>callTool\<close> result: \<open>item_text\<close> is
  \<open>None\<close> when \<open>typeof item.text\<close> is not \<open>'string'\<close>.\<close>

record content_item =
  item_type :: jsstring
  item_text :: "jsstring option"

text \<open>A \<open>callTool\<close> result: \<open>result_content\<close> is \<open>None\<close> when \<open>result.content\<close> is
  missing or not an array.\<close>

record call_result =
  result_content :: "content_item list option"

text \<open>A function declaration handed to the model.\<close>

record FunctionDeclaration =
  decl_name :: jsstring
  decl_description :: jsstring

record Tool =
  functionDeclarations :: "FunctionDeclaration list"

text \<open>A function call requested by the model: \<open>call.name\<close>, \<open>call.args\<close>.\<close>

record FunctionCall =
  call_name :: jsstring
  call_args :: json

text \<open>A model response: \<open>response.functionCalls()\<close> (\<open>None\<close> for \<open>undefined\<close>) and
  \<open>response.text()\<close>.\<close>

record GenerateContentResponse =
  functionCalls :: "FunctionCall list option"
  resp_text :: jsstring

text \<open>The \<open>response\<close> field of a function-response part is \<open>{ content: ... }\<close> or
  \<open>{ error: ... }\<close>.\<close>

datatype response_payload = Content jsstring | ErrorMessage jsstring

datatype part = FunctionResponse jsstring response_payload

text \<open>\<open>chat.sendMessage\<close> is called with the question string or with an array of parts.\<close>

datatype message = MsgText jsstring | MsgParts "part list"

record GenerativeModel =
  model_name :: jsstring
  systemInstruction :: jsstring
  model_tools :: "Tool list"

datatype turn = UserTurn message | ModelTurn GenerateContentResponse

record ChatSession =
  chat_model :: GenerativeModel
  history :: "turn list"

text \<open>The MCP client object; \<open>connected\<close> records whether \<open>connect\<close> has succeeded on it.\<close>

record Client =
  connected :: bool

datatype event =
    EvFetch jsstring
  | EvGetGeminiTools
  | EvCallMcpTool jsstring json
  | EvSendMessage message "js_error + GenerateContentResponse"
  | EvConnect
  | EvListTools
  | EvCallTool jsstring json

text \<open>
  The environment of the program: its configuration and the operations it does not define
  itself.
  \<^item> \<open>GEMINI_API_KEY\<close>, \<open>MODEL_NAME\<close>, \<open>SKILL_MD_URL\<close>: the constants read from
    \<open>process.env\<close>; \<open>MCP_URL_error\<close> is the exception of \<open>new URL(MCP_URL)\<close>, if any.
  \<^item> \<open>toLowerCase\<close>, \<open>date_now\<close>, \<open>fetch\<close>: the built-ins \<open>String.prototype.toLowerCase\<close>,
    \<open>Date.now\<close> (a reading of the world's clock) and \<open>fetch\<close>.
  \<^item> \<open>getGeminiTools\<close>, \<open>callMcpTool\<close>: the two functions that gemini.ts imports from the
    tool client; the tool client among the sources exports \<open>searchDocuments\<close> instead, so
    the agent loop takes them as parameters.
  \<^item> \<open>llm\<close>: one exchange with the model, given the chat session and the message;
    \<open>mcp_connect\<close>, \<open>mcp_listTools\<close>, \<open>mcp_callTool\<close>: the methods of the MCP client.
  A model response is plain data: \<open>functionCalls()\<close> and \<open>text()\<close> read it and do not
  throw. Every awaited operation settles: it resolves or rejects.
\<close>

record 'w env =
  GEMINI_API_KEY :: jsstring
  MODEL_NAME :: jsstring
  SKILL_MD_URL :: jsstring
  MCP_URL_error :: "js_error option"
  toLowerCase :: "jsstring \<Rightarrow> jsstring"
  date_now :: "'w \<Rightarrow> int"
  fetch :: "jsstring \<Rightarrow> 'w \<Rightarrow> (js_error + http_response) \<times> 'w"
  getGeminiTools :: "'w \<Rightarrow> (js_error + FunctionDeclaration list) \<times> 'w"
  callMcpTool :: "jsstring \<Rightarrow> json \<Rightarrow> 'w \<Rightarrow> (js_error + SearchResult) \<times> 'w"
  llm :: "ChatSession \<Rightarrow> message \<Rightarrow> 'w \<Rightarrow> (js_error + GenerateContentResponse) \<times> 'w"
  mcp_connect :: "'w \<Rightarrow> (js_error + unit) \<times> 'w"
  mcp_listTools :: "Client \<Rightarrow> 'w \<Rightarrow> (js_error + mcp_tool list) \<times> 'w"
  mcp_callTool :: "Client \<Rightarrow> jsstring \<Rightarrow> json \<Rightarrow> 'w \<Rightarrow> (js_error + call_result) \<times> 'w"

record 'w state =
  world :: 'w
  trace :: "event list"
  cachedContent :: "jsstring option"
  cachedAt :: int
  client :: "Client option"
  genAI :: bool

text \<open>The module-level variables as the three files initialise them.\<close>

definition init_state :: "'w \<Rightarrow> 'w state" where
  "init_state w = \<lparr>world = w, trace = [], cachedContent = None, cachedAt = 0,
                   client = None, genAI = False\<rparr>"

section \<open>skill.ts: the context cache\<close>

definition CACHE_TTL_MS :: int where
  "CACHE_TTL_MS = 60 * 60 * 1000"

text \<open>The \<open>try\<close> block of \<open>getSkillContext\<close>: \<open>Inl\<close> is the exception that reaches the
  \<open>catch\<close>.\<close>

definition getSkillContext_try :: "'w env \<Rightarrow> int \<Rightarrow> 'w state \<Rightarrow> (js_error + jsstring) \<times> 'w state" where
  "getSkillContext_try E now s =
     (case fetch E (SKILL_MD_URL E) (world s) of
        (Inl err, w1) \<Rightarrow>
          (Inl err, s\<lparr>world := w1, trace := trace s @ [EvFetch (SKILL_MD_URL E)]\<rparr>)
      | (Inr res, w1) \<Rightarrow>
          (let s1 = s\<lparr>world := w1, trace := trace s @ [EvFetch (SKILL_MD_URL E)]\<rparr> in
           if \<not> res_ok res then (Inl (JsError (ascii ''HTTP '' @ decimal (status res))), s1)
           else (case body res of
                   Inl err \<Rightarrow> (Inl err, s1)
                 | Inr text \<Rightarrow> (Inr text, s1\<lparr>cachedContent := Some text, cachedAt := now\<rparr>))))"

text \<open>The fetch with its \<open>catch\<close>: \<open>cachedContent ?? ''\<close> on any failure.\<close>

definition getSkillContext_refresh :: "'w env \<Rightarrow> int \<Rightarrow> 'w state \<Rightarrow> jsstring \<times> 'w state" where
  "getSkillContext_refresh E now s =
     (case getSkillContext_try E now s of
        (Inr text, s') \<Rightarrow> (text, s')
      | (Inl err, s') \<Rightarrow> (case cachedContent s' of Some c \<Rightarrow> c | None \<Rightarrow> [], s'))"

definition getSkillContext :: "'w env \<Rightarrow> 'w state \<Rightarrow> jsstring \<times> 'w state" where
  "getSkillContext E s =
     (let now = date_now E (world s) in
      case cachedContent s of
        Some c \<Rightarrow>
          if now - cachedAt s < CACHE_TTL_MS then (c, s) else getSkillContext_refresh E now s
      | None \<Rightarrow> getSkillContext_refresh E now s)"

text \<open>\<open>n\<close> calls of \<open>getSkillContext\<close> one after the other, with the values they return.\<close>

fun getSkillContext_times :: "'w env \<Rightarrow> nat \<Rightarrow> 'w state \<Rightarrow> jsstring list \<times> 'w state" where
  "getSkillContext_times E 0 s = ([], s)"
| "getSkillContext_times E (Suc n) s =
     (case getSkillContext E s of
        (r, s1) \<Rightarrow> (case getSkillContext_times E n s1 of (rs, s2) \<Rightarrow> (r # rs, s2)))"

text \<open>The number of network fetches recorded in a trace.\<close>

definition fetch_count :: "event list \<Rightarrow> nat" where
  "fetch_count evs = length (filter (\<lambda>e. case e of EvFetch _ \<Rightarrow> True | _ \<Rightarrow> False) evs)"

text \<open>A fetch fails when the request rejects, the status is not 2xx, or reading the body
  rejects.\<close>

definition fetch_fails :: "js_error + http_response \<Rightarrow> bool" where
  "fetch_fails r = (case r of Inl _ \<Rightarrow> True
                    | Inr res \<Rightarrow> \<not> res_ok res \<or> (case body res of Inl _ \<Rightarrow> True | Inr _ \<Rightarrow> False))"

section \<open>mcp.ts: the tool client\<close>

text \<open>
  \<open>getClient\<close>: the module variable \<open>client\<close> is assigned the new object before
  \<open>connect\<close> is awaited; \<open>connect\<close> then makes that same object connected. The
  \<open>URL\<close> constructor may throw on a malformed \<open>MCP_URL\<close>, before the assignment.
\<close>

definition getClient :: "'w env \<Rightarrow> 'w state \<Rightarrow> (js_error + Client) \<times> 'w state" where
  "getClient E s =
     (case client s of
        Some c \<Rightarrow> (Inr c, s)
      | None \<Rightarrow>
          (case MCP_URL_error E of
             Some err \<Rightarrow> (Inl err, s)
           | None \<Rightarrow>
               (let s1 = s\<lparr>client := Some \<lparr>connected = False\<rparr>\<rparr> in
                case mcp_connect E (world s1) of
                  (Inl err, w1) \<Rightarrow> (Inl err, s1\<lparr>world := w1, trace := trace s1 @ [EvConnect]\<rparr>)
                | (Inr u, w1) \<Rightarrow>
                    (let s2 = s1\<lparr>world := w1, trace := trace s1 @ [EvConnect],
                                 client := Some \<lparr>connected = True\<rparr>\<rparr> in
                     case mcp_listTools E \<lparr>connected = True\<rparr> (world s2) of
                       (Inl err, w2) \<Rightarrow>
                         (Inl err, s2\<lparr>world := w2, trace := trace s2 @ [EvListTools]\<rparr>)
                     | (Inr tools, w2) \<Rightarrow>
                         (Inr \<lparr>connected = True\<rparr>,
                          s2\<lparr>world := w2, trace := trace s2 @ [EvListTools]\<rparr>)))))"

text \<open>\<open>String.prototype.includes\<close>.\<close>

fun str_includes :: "jsstring \<Rightarrow> jsstring \<Rightarrow> bool" where
  "str_includes [] sub = (sub = [])"
| "str_includes (c # cs) sub = (take (length sub) (c # cs) = sub \<or> str_includes cs sub)"

text \<open>The predicate of \<open>tools.find\<close> in \<open>searchDocuments\<close>.\<close>

definition is_search_tool :: "'w env \<Rightarrow> mcp_tool \<Rightarrow> bool" where
  "is_search_tool E t =
     (str_includes (toLowerCase E (tool_name t)) (ascii ''search'')
      \<or> str_includes (toLowerCase E (tool_name t)) (ascii ''query''))"

subsection \<open>The regular expression of the source links\<close>

text \<open>
  The constructs the pattern uses: a literal character, a negated class of one character,
  and the greedy quantifiers \<open>?\<close> and \<open>+\<close> on them. Capture groups do not change which
  text matches. A pattern is a sequence of items.
\<close>

datatype rx_atom = Chr jschar | NotChr jschar
datatype rx_item = One rx_atom | Opt rx_atom | Plus rx_atom
type_synonym regex = "rx_item list"

fun atom_ok :: "rx_atom \<Rightarrow> jschar \<Rightarrow> bool" where
  "atom_ok (Chr a) c = (c = a)"
| "atom_ok (NotChr a) c = (c \<noteq> a)"

text \<open>
  A backtracking matcher: the list of the remainders of the input after each way of
  matching, in the order the engine tries them (a greedy quantifier tries the longest
  first).
\<close>

fun plus_ends :: "rx_atom \<Rightarrow> jsstring \<Rightarrow> jsstring list" where
  "plus_ends a [] = []"
| "plus_ends a (c # cs) = (if atom_ok a c then plus_ends a cs @ [cs] else [])"

fun item_ends :: "rx_item \<Rightarrow> jsstring \<Rightarrow> jsstring list" where
  "item_ends (One a) s = (case s of [] \<Rightarrow> [] | c # cs \<Rightarrow> if atom_ok a c then [cs] else [])"
| "item_ends (Opt a) s =
     (case s of [] \<Rightarrow> [s] | c # cs \<Rightarrow> if atom_ok a c then [cs, s] else [s])"
| "item_ends (Plus a) s = plus_ends a s"

fun seq_ends :: "regex \<Rightarrow> jsstring \<Rightarrow> jsstring list" where
  "seq_ends [] s = [s]"
| "seq_ends (i # is) s = concat (map (seq_ends is) (item_ends i s))"

text \<open>The match that starts at the head of the input, if any: what is left after it.\<close>

definition match_at :: "regex \<Rightarrow> jsstring \<Rightarrow> jsstring option" where
  "match_at r s = (case seq_ends r s of [] \<Rightarrow> None | rest # _ \<Rightarrow> Some rest)"

text \<open>
  All matches from left to right, as the \<open>g\<close> flag has it: after a match the search goes
  on behind it (one position further after an empty match); where nothing matches it moves
  one position on.
\<close>

fun match_all :: "regex \<Rightarrow> jsstring \<Rightarrow> jsstring list" where
  "match_all r s =
     (case match_at r s of
        Some rest \<Rightarrow>
          if length rest < length s then take (length s - length rest) s # match_all r rest
          else [] # (case s of [] \<Rightarrow> [] | c # cs \<Rightarrow> match_all r cs)
      | None \<Rightarrow> (case s of [] \<Rightarrow> [] | c # cs \<Rightarrow> match_all r cs))"

declare match_all.simps [simp del]

text \<open>\<open>text.match(re)\<close> with the \<open>g\<close> flag: \<open>null\<close> when nothing matches.\<close>

definition str_match :: "jsstring \<Rightarrow> regex \<Rightarrow> jsstring list option" where
  "str_match s r = (case match_all r s of [] \<Rightarrow> None | m # ms \<Rightarrow> Some (m # ms))"

text \<open>\<open>/\[([^\]]+)\]\((https?:\/\/[^\)]+)\)/g\<close>\<close>

definition link_regex :: regex where
  "link_regex =
     [One (Chr 0x5B), Plus (NotChr 0x5D), One (Chr 0x5D), One (Chr 0x28),
      One (Chr 0x68), One (Chr 0x74), One (Chr 0x74), One (Chr 0x70), Opt (Chr 0x73),
      One (Chr 0x3A), One (Chr 0x2F), One (Chr 0x2F),
      Plus (NotChr 0x29), One (Chr 0x29)]"

subsection \<open>trim and Set\<close>

text \<open>White space and line terminators of ECMAScript, which \<open>trim\<close> strips.\<close>

definition is_js_space :: "jschar \<Rightarrow> bool" where
  "is_js_space c =
     (c \<in> {0x9, 0xA, 0xB, 0xC, 0xD, 0x20, 0xA0, 0x1680, 0x2028, 0x2029, 0x202F, 0x205F,
            0x3000, 0xFEFF}
      \<or> (0x2000 \<le> c \<and> c \<le> 0x200A))"

definition trim :: "jsstring \<Rightarrow> jsstring" where
  "trim s = rev (dropWhile is_js_space (rev (dropWhile is_js_space s)))"

text \<open>\<open>[...new Set(xs)]\<close>: a value is kept where it first occurs.\<close>

definition new_Set :: "'a list \<Rightarrow> 'a list" where
  "new_Set xs = fold (\<lambda>x acc. if x \<in> set acc then acc else acc @ [x]) xs []"

subsection \<open>searchDocuments\<close>

text \<open>One turn of the loop over \<open>result.content\<close>, on the pair of \<open>content\<close> and
  \<open>sources\<close>.\<close>

definition collect_item :: "content_item \<Rightarrow> jsstring \<times> jsstring list \<Rightarrow> jsstring \<times> jsstring list" where
  "collect_item item acc =
     (case acc of (content_acc, sources_acc) \<Rightarrow>
        if item_type item = ascii ''text'' then
          (case item_text item of
             Some text \<Rightarrow>
               (content_acc @ text @ [0xA, 0xA],
                case str_match text link_regex of
                  Some urlMatches \<Rightarrow> sources_acc @ urlMatches
                | None \<Rightarrow> sources_acc)
           | None \<Rightarrow> acc)
        else acc)"

text \<open>Lines 68 to 91: from the \<open>callTool\<close> result to the \<open>SearchResult\<close>.\<close>

definition extract_result :: "call_result \<Rightarrow> SearchResult" where
  "extract_result result =
     (case (case result_content result of
              Some items \<Rightarrow> fold collect_item items ([], [])
            | None \<Rightarrow> ([], [])) of
        (content_acc, sources_acc) \<Rightarrow> \<lparr>content = trim content_acc, sources = new_Set sources_acc\<rparr>)"

definition searchDocuments :: "'w env \<Rightarrow> jsstring \<Rightarrow> 'w state \<Rightarrow> (js_error + SearchResult) \<times> 'w state" where
  "searchDocuments E query s =
     (case getClient E s of
        (Inl err, s1) \<Rightarrow> (Inl err, s1)
      | (Inr mcpClient, s1) \<Rightarrow>
          (case mcp_listTools E mcpClient (world s1) of
             (Inl err, w2) \<Rightarrow> (Inl err, s1\<lparr>world := w2, trace := trace s1 @ [EvListTools]\<rparr>)
           | (Inr tools, w2) \<Rightarrow>
               (let s2 = s1\<lparr>world := w2, trace := trace s1 @ [EvListTools]\<rparr> in
                case find (is_search_tool E) tools of
                  None \<Rightarrow> (Inr \<lparr>content = [], sources = []\<rparr>, s2)
                | Some searchTool \<Rightarrow>
                    (let arguments = JObj [(ascii ''query'', JStr query)] in
                     case mcp_callTool E mcpClient (tool_name searchTool) arguments (world s2) of
                       (Inl err, w3) \<Rightarrow>
                         (Inl err, s2\<lparr>world := w3,
                            trace := trace s2 @ [EvCallTool (tool_name searchTool) arguments]\<rparr>)
                     | (Inr result, w3) \<Rightarrow>
                         (Inr (extract_result result),
                          s2\<lparr>world := w3,
                            trace := trace s2 @ [EvCallTool (tool_name searchTool) arguments]\<rparr>)))))"

section \<open>gemini.ts: the agent loop\<close>

text \<open>The fixed texts of the file, as UTF-16 code units. The first five are the pieces of
  the template of \<open>buildSystemPrompt\<close>, between its interpolations.\<close>

definition prompt_intro :: jsstring where
  "prompt_intro =
   [0x3042, 0x306A, 0x305F, 0x306F, 0x20, 0x49, 0x41, 0x42, 0x20, 0x54, 0x65, 0x63, 0x68, 0x20,
    0x4C, 0x61, 0x62, 0x20, 0x30C9, 0x30AD, 0x30E5, 0x30E1, 0x30F3, 0x30C8, 0x306E, 0x8CEA,
    0x554F, 0x306B, 0x7B54, 0x3048, 0x308B, 0x30A2, 0x30B7, 0x30B9, 0x30BF, 0x30F3, 0x30C8,
    0x3067, 0x3059, 0x3002, 0xA]"

definition skill_section_head :: jsstring where
  "skill_section_head =
   [0xA, 0x23, 0x23, 0x20, 0x30C9, 0x30AD, 0x30E5, 0x30E1, 0x30F3, 0x30C8, 0x306E,
    0x80FD, 0x529B, 0x3068, 0x7BC4, 0x56F2, 0xA, 0xA, 0x4EE5, 0x4E0B, 0x306F, 0x3001, 0x3053,
    0x306E, 0x30C9, 0x30AD, 0x30E5, 0x30E1, 0x30F3, 0x30C8, 0x304C, 0x30AB, 0x30D0, 0x30FC,
    0x3059, 0x308B, 0x898F, 0x683C, 0x30FB, 0x80FD, 0x529B, 0x306E, 0x6982, 0x8981, 0x3067,
    0x3059, 0x3002, 0x8CEA, 0x554F, 0x306B, 0x56DE, 0x7B54, 0x3059, 0x308B, 0x969B, 0x3001,
    0x3053, 0x306E, 0x60C5, 0x5831, 0x3092, 0x53C2, 0x8003, 0x306B, 0x9069, 0x5207, 0x306A,
    0x30C9, 0x30AD, 0x30E5, 0x30E1, 0x30F3, 0x30C8, 0x3092, 0x691C, 0x7D22, 0x3057, 0x3066,
    0x304F, 0x3060, 0x3055, 0x3044, 0x3002, 0xA, 0xA]"

definition prompt_rules_head :: jsstring where
  "prompt_rules_head =
   [0xA, 0x23, 0x23, 0x20, 0x30EB, 0x30FC, 0x30EB, 0xA, 0x31, 0x2E, 0x20, 0x5229, 0x7528,
    0x53EF, 0x80FD, 0x306A, 0x30C4, 0x30FC, 0x30EB, 0x691C, 0x7D22, 0x30C4, 0x30FC, 0x30EB,
    0x3092, 0x4F7F, 0x7528, 0x3057, 0x3066, 0x3001, 0x30C9, 0x30AD, 0x30E5, 0x30E1, 0x30F3,
    0x30C8, 0x3092, 0x691C, 0x7D22, 0x3057, 0x3001, 0x8CEA, 0x554F, 0x306B, 0x7B54, 0x3048,
    0x3066, 0x304F, 0x3060, 0x3055, 0x3044, 0x3002, 0xA, 0x32, 0x2E, 0x20, 0x30E6, 0x30FC,
    0x30B6, 0x30FC, 0x306E, 0x8CEA, 0x554F, 0x306B, 0x5BFE, 0x3057, 0x3066, 0x3001]"

definition prompt_skill_hint :: jsstring where
  "prompt_skill_hint =
   [0x4E0A, 0x8A18, 0x306E, 0x80FD, 0x529B, 0x3068, 0x7BC4, 0x56F2, 0x3092, 0x53C2, 0x8003,
    0x306B, 0x3001]"

definition prompt_rules_tail :: jsstring where
  "prompt_rules_tail =
   [0x9069, 0x5207, 0x306A, 0x30AD, 0x30FC, 0x30EF, 0x30FC, 0x30C9, 0x3067, 0x691C, 0x7D22,
    0x3092, 0x884C, 0x3063, 0x3066, 0x304F, 0x3060, 0x3055, 0x3044, 0x3002, 0xA, 0x33, 0x2E,
    0x20, 0x30C4, 0x30FC, 0x30EB, 0x304B, 0x3089, 0x5F97, 0x3089, 0x308C, 0x305F, 0x60C5,
    0x5831, 0x306E, 0x307F, 0x3092, 0x6839, 0x62E0, 0x306B, 0x56DE, 0x7B54, 0x3057, 0x3066,
    0x304F, 0x3060, 0x3055, 0x3044, 0x3002, 0x60C5, 0x5831, 0x304C, 0x306A, 0x3044, 0x5834,
    0x5408, 0x306F, 0x6B63, 0x76F4, 0x306B, 0x305D, 0x3046, 0x4F1D, 0x3048, 0x3066, 0x304F,
    0x3060, 0x3055, 0x3044, 0x3002, 0xA, 0x34, 0x2E, 0x20, 0x56DE, 0x7B54, 0x306F, 0x65E5,
    0x672C, 0x8A9E, 0x3067, 0x3001, 0x7C21, 0x6F54, 0x306B, 0x884C, 0x3063, 0x3066, 0x304F,
    0x3060, 0x3055, 0x3044, 0x3002, 0xA, 0x35, 0x2E, 0x20, 0x56DE, 0x7B54, 0x306E, 0x672B,
    0x5C3E, 0x306B, 0x3001, 0x53C2, 0x7167, 0x3057, 0x305F, 0x30C9, 0x30AD, 0x30E5, 0x30E1,
    0x30F3, 0x30C8, 0x306E, 0x55, 0x52, 0x4C, 0x3092, 0x5FC5, 0x305A, 0x30EA, 0x30B9, 0x30C8,
    0x30A2, 0x30C3, 0x30D7, 0x3057, 0x3066, 0x304F, 0x3060, 0x3055, 0x3044, 0x3002, 0xA, 0x36,
    0x2E, 0x20, 0x8907, 0x6570, 0x306E, 0x898F, 0x683C, 0x306B, 0x307E, 0x305F, 0x304C, 0x308B,
    0x8CEA, 0x554F, 0x306E, 0x5834, 0x5408, 0x3001, 0x95A2, 0x9023, 0x3059, 0x308B, 0x5168,
    0x3066, 0x306E, 0x898F, 0x683C, 0x304B, 0x3089, 0x60C5, 0x5831, 0x3092, 0x53CE, 0x96C6,
    0x3057, 0x3066, 0x304B, 0x3089, 0x56DE, 0x7B54, 0x3057, 0x3066, 0x304F, 0x3060, 0x3055,
    0x3044, 0x3002, 0xA]"

text \<open>The answer when \<open>GEMINI_API_KEY\<close> is not set.\<close>

definition config_error_answer :: jsstring where
  "config_error_answer =
   [0x8A2D, 0x5B9A, 0x30A8, 0x30E9, 0x30FC, 0x3A, 0x20, 0x47, 0x45, 0x4D, 0x49, 0x4E, 0x49,
    0x5F, 0x41, 0x50, 0x49, 0x5F, 0x4B, 0x45, 0x59, 0x304C, 0x8A2D, 0x5B9A, 0x3055, 0x308C,
    0x3066, 0x3044, 0x307E, 0x305B, 0x3093]"

text \<open>The answer of the top-level \<open>catch\<close>.\<close>

definition generic_error_answer :: jsstring where
  "generic_error_answer =
   [0x56DE, 0x7B54, 0x306E, 0x751F, 0x6210, 0x4E2D, 0x306B, 0x30A8, 0x30E9, 0x30FC, 0x304C,
    0x767A, 0x751F, 0x3057, 0x307E, 0x3057, 0x305F, 0x3002]"

definition buildSystemPrompt :: "jsstring \<Rightarrow> jsstring" where
  "buildSystemPrompt skillMd =
     (let skillSection = (if skillMd \<noteq> [] then skill_section_head @ skillMd @ [0xA] else [])
      in prompt_intro @ skillSection @ prompt_rules_head
         @ (if skillMd \<noteq> [] then prompt_skill_hint else []) @ prompt_rules_tail)"

record GenerateAnswerResult =
  answer :: jsstring
  success :: bool

definition getModel :: "'w env \<Rightarrow> Tool list \<Rightarrow> jsstring \<Rightarrow> 'w state \<Rightarrow> (js_error + GenerativeModel) \<times> 'w state" where
  "getModel E tools instruction s =
     (if GEMINI_API_KEY E = [] then (Inl (JsError (ascii ''GEMINI_API_KEY is not set'')), s)
      else (Inr \<lparr>model_name = MODEL_NAME E, systemInstruction = instruction,
                  model_tools = tools\<rparr>,
            s\<lparr>genAI := True\<rparr>))"

text \<open>\<open>model.startChat({ history: [] })\<close>\<close>

definition startChat :: "GenerativeModel \<Rightarrow> ChatSession" where
  "startChat m = \<lparr>chat_model = m, history = []\<rparr>"

text \<open>\<open>chat.sendMessage\<close>: one exchange with the model. The session keeps the turns of
  the exchanges that succeeded.\<close>

definition sendMessage :: "'w env \<Rightarrow> ChatSession \<Rightarrow> message \<Rightarrow> 'w state \<Rightarrow> (js_error + GenerateContentResponse) \<times> ChatSession \<times> 'w state" where
  "sendMessage E chat msg s =
     (case llm E chat msg (world s) of
        (Inl err, w1) \<Rightarrow>
          (Inl err, chat, s\<lparr>world := w1, trace := trace s @ [EvSendMessage msg (Inl err)]\<rparr>)
      | (Inr r, w1) \<Rightarrow>
          (Inr r, chat\<lparr>history := history chat @ [UserTurn msg, ModelTurn r]\<rparr>,
           s\<lparr>world := w1, trace := trace s @ [EvSendMessage msg (Inr r)]\<rparr>))"

text \<open>The part that one tool call pushes: the \<open>try\<close> pushes the content, the \<open>catch\<close>
  the message of the error.\<close>

definition call_part :: "FunctionCall \<Rightarrow> js_error + SearchResult \<Rightarrow> part" where
  "call_part call outcome =
     (case outcome of
        Inr toolResult \<Rightarrow> FunctionResponse (call_name call) (Content (content toolResult))
      | Inl err \<Rightarrow> FunctionResponse (call_name call) (ErrorMessage (message err)))"

text \<open>The \<open>for\<close> loop over \<open>functionCalls\<close>, with \<open>parts\<close> as accumulator.\<close>

fun execute_calls :: "'w env \<Rightarrow> FunctionCall list \<Rightarrow> part list \<Rightarrow> 'w state \<Rightarrow> part list \<times> 'w state" where
  "execute_calls E [] parts s = (parts, s)"
| "execute_calls E (call # calls) parts s =
     (case callMcpTool E (call_name call) (call_args call) (world s) of
        (outcome, w1) \<Rightarrow>
          execute_calls E calls (parts @ [call_part call outcome])
            (s\<lparr>world := w1,
               trace := trace s @ [EvCallMcpTool (call_name call) (call_args call)]\<rparr>))"

definition MAX_ITERATIONS :: nat where
  "MAX_ITERATIONS = 10"

text \<open>The \<open>while\<close> loop. It returns the value of \<open>iteration\<close> with the last \<open>result\<close>;
  \<open>Inl\<close> is an exception of \<open>sendMessage\<close>, which leaves the loop.\<close>

function agent_loop :: "'w env \<Rightarrow> nat \<Rightarrow> GenerateContentResponse \<Rightarrow> ChatSession \<Rightarrow> 'w state \<Rightarrow> (js_error + nat \<times> GenerateContentResponse) \<times> 'w state" where
  "agent_loop E iteration result chat s =
     (if iteration < MAX_ITERATIONS then
        (case functionCalls result of
           Some (call # calls) \<Rightarrow>
             (case execute_calls E (call # calls) [] s of
                (parts, s1) \<Rightarrow>
                  (case sendMessage E chat (MsgParts parts) s1 of
                     (Inl err, chat', s2) \<Rightarrow> (Inl err, s2)
                   | (Inr result', chat', s2) \<Rightarrow> agent_loop E (iteration + 1) result' chat' s2))
         | Some [] \<Rightarrow> (Inr (iteration, result), s)
         | None \<Rightarrow> (Inr (iteration, result), s))
      else (Inr (iteration, result), s))"
  by pat_completeness auto
termination
  by (relation "measure (\<lambda>(E, iteration, result, chat, s). MAX_ITERATIONS - iteration)") auto

declare agent_loop.simps [simp del]

text \<open>The body of the \<open>try\<close> block of \<open>generateAnswer\<close>.\<close>

definition generateAnswer_try :: "'w env \<Rightarrow> jsstring \<Rightarrow> 'w state \<Rightarrow> (js_error + GenerateAnswerResult) \<times> 'w state" where
  "generateAnswer_try E question s =
     (case getGeminiTools E (world s) of
        (Inl err, w1) \<Rightarrow> (Inl err, s\<lparr>world := w1, trace := trace s @ [EvGetGeminiTools]\<rparr>)
      | (Inr toolDeclarations, w1) \<Rightarrow>
          (let s1 = s\<lparr>world := w1, trace := trace s @ [EvGetGeminiTools]\<rparr>;
               tools = [\<lparr>functionDeclarations = toolDeclarations\<rparr>] in
           case getSkillContext E s1 of
             (skillMd, s2) \<Rightarrow>
               (let systemPrompt = buildSystemPrompt skillMd in
                case getModel E tools systemPrompt s2 of
                  (Inl err, s3) \<Rightarrow> (Inl err, s3)
                | (Inr model, s3) \<Rightarrow>
                    (let chat = startChat model in
                     case sendMessage E chat (MsgText question) s3 of
                       (Inl err, chat', s4) \<Rightarrow> (Inl err, s4)
                     | (Inr result, chat', s4) \<Rightarrow>
                         (case agent_loop E 0 result chat' s4 of
                            (Inl err, s5) \<Rightarrow> (Inl err, s5)
                          | (Inr (iteration, result'), s5) \<Rightarrow>
                              (Inr \<lparr>answer = resp_text result', success = True\<rparr>, s5))))))"

text \<open>\<open>generateAnswer\<close>. Its promise could reject (\<open>Inl\<close>) or resolve (\<open>Inr\<close>); the
  \<open>catch\<close> turns every exception of the \<open>try\<close> block into a result.\<close>

definition generateAnswer :: "'w env \<Rightarrow> jsstring \<Rightarrow> 'w state \<Rightarrow> (js_error + GenerateAnswerResult) \<times> 'w state" where
  "generateAnswer E question s =
     (if GEMINI_API_KEY E = [] then
        (Inr \<lparr>answer = config_error_answer, success = False\<rparr>, s)
      else
        (case generateAnswer_try E question s of
           (Inr r, s') \<Rightarrow> (Inr r, s')
         | (Inl err, s') \<Rightarrow> (Inr \<lparr>answer = generic_error_answer, success = False\<rparr>, s')))"

text \<open>The exchanges with the model that a trace records: each message sent, with the
  outcome.\<close>

fun model_calls :: "event list \<Rightarrow> (message \<times> (js_error + GenerateContentResponse)) list" where
  "model_calls [] = []"
| "model_calls (EvSendMessage m r # evs) = (m, r) # model_calls evs"
| "model_calls (e # evs) = model_calls evs"

text \<open>The tool calls that a trace records, in the order they were made.\<close>

fun tool_calls :: "event list \<Rightarrow> (jsstring \<times> json) list" where
  "tool_calls [] = []"
| "tool_calls (EvCallMcpTool n a # evs) = (n, a) # tool_calls evs"
| "tool_calls (e # evs) = tool_calls evs"

text \<open>The tool-exchange rounds that a trace records: the exchanges in which tool results
  were sent to the model.\<close>

definition tool_rounds :: "event list \<Rightarrow> nat" where
  "tool_rounds evs =
     length (filter (\<lambda>mc. case fst mc of MsgParts ps \<Rightarrow> True | MsgText q \<Rightarrow> False)
               (model_calls evs))"

text \<open>A response that requests at least one tool call.\<close>

definition requests_tool_call :: "GenerateContentResponse \<Rightarrow> bool" where
  "requests_tool_call r = (case functionCalls r of Some (c # cs) \<Rightarrow> True | _ \<Rightarrow> False)"

section \<open>Example environments\<close>

text \<open>An environment for examples: the world is a clock in milliseconds, every request
  takes a second, and every network operation is refused.\<close>

definition offline :: "nat env" where
  "offline = \<lparr>GEMINI_API_KEY = ascii ''key'', MODEL_NAME = ascii ''gemini-1.5-flash'',
     SKILL_MD_URL = ascii ''https://iab-docs.apti.jp/skill.md'', MCP_URL_error = None,
     toLowerCase = (\<lambda>s. s), date_now = int,
     fetch = (\<lambda>url w. (Inl (JsError (ascii ''fetch failed'')), w + 1000)),
     getGeminiTools = (\<lambda>w. (Inl (JsError (ascii ''unreachable'')), w + 1000)),
     callMcpTool = (\<lambda>n a w. (Inl (JsError (ascii ''unreachable'')), w + 1000)),
     llm = (\<lambda>c m w. (Inl (JsError (ascii ''unreachable'')), w + 1000)),
     mcp_connect = (\<lambda>w. (Inl (JsError (ascii ''unreachable'')), w + 1000)),
     mcp_listTools = (\<lambda>c w. (Inl (JsError (ascii ''Not connected'')), w + 1000)),
     mcp_callTool = (\<lambda>c n a w. (Inl (JsError (ascii ''Not connected'')), w + 1000))\<rparr>"

text \<open>The same, with a scope-document endpoint that answers 200 with the text \<open>scope\<close>.\<close>

definition skill_online :: "nat env" where
  "skill_online = offline\<lparr>fetch :=
     (\<lambda>url w. (Inr \<lparr>status = 200, body = Inr (ascii ''scope'')\<rparr>, w + 1000))\<rparr>"

text \<open>Lower-casing of the ASCII letters, for the example tool names.\<close>

definition ascii_lower :: "jsstring \<Rightarrow> jsstring" where
  "ascii_lower s = map (\<lambda>c. if 0x41 \<le> c \<and> c \<le> 0x5A then c + 0x20 else c) s"

text \<open>A tool endpoint that is up: it lists two tools and answers every call with two links
  to the same page and one to another.\<close>

definition mcp_up :: "nat env" where
  "mcp_up = offline\<lparr>toLowerCase := ascii_lower,
     mcp_connect := (\<lambda>w. (Inr (), w + 1000)),
     mcp_listTools := (\<lambda>c w.
        (Inr [\<lparr>tool_name = ascii ''fetch_page'', tool_description = []\<rparr>,
              \<lparr>tool_name = ascii ''Search_Docs'', tool_description = []\<rparr>], w + 1000)),
     mcp_callTool := (\<lambda>c n a w.
        (Inr \<lparr>result_content = Some
           [\<lparr>item_type = ascii ''text'',
             item_text = Some (ascii ''[a](http://x) [a](http://x) [b](http://y)'')\<rparr>]\<rparr>,
         w + 1000))\<rparr>"

text \<open>The same endpoint with a catalog that has no search tool.\<close>

definition no_search_tool :: "nat env" where
  "no_search_tool = mcp_up\<lparr>mcp_listTools := (\<lambda>c w.
        (Inr [\<lparr>tool_name = ascii ''fetch_page'', tool_description = []\<rparr>], w + 1000))\<rparr>"

text \<open>The same endpoint where every tool call is refused.\<close>

definition tool_down :: "nat env" where
  "tool_down = mcp_up\<lparr>mcp_callTool := (\<lambda>c n a w.
        (Inl (JsError (ascii ''tool failed'')), w + 1000))\<rparr>"

text \<open>An endpoint that refuses the connection during the first second only, and whose
  operations need a connected client.\<close>

definition flaky :: "nat env" where
  "flaky = mcp_up\<lparr>
     mcp_connect := (\<lambda>w. if w < 1000 then (Inl (JsError (ascii ''ECONNREFUSED'')), w + 1000)
                          else (Inr (), w + 1000)),
     mcp_listTools := (\<lambda>c w.
        if connected c
        then (Inr [\<lparr>tool_name = ascii ''search_docs'', tool_description = []\<rparr>], w + 1000)
        else (Inl (JsError (ascii ''Not connected'')), w + 1000))\<rparr>"

text \<open>The offline environment without the API key.\<close>

definition no_key :: "nat env" where
  "no_key = offline\<lparr>GEMINI_API_KEY := []\<rparr>"

text \<open>A model that requests one tool call in every response; the text of a response is the
  number of turns the session held before it. The tool catalog is empty and every tool
  call is refused.\<close>

definition always_calls :: "nat env" where
  "always_calls = offline\<lparr>
     getGeminiTools := (\<lambda>w. (Inr [], w + 1000)),
     llm := (\<lambda>chat m w.
        (Inr \<lparr>functionCalls = Some [\<lparr>call_name = ascii ''search'', call_args = JObj []\<rparr>],
              resp_text = decimal (length (history chat))\<rparr>, w + 1000))\<rparr>"

text \<open>A tool endpoint that knows the tool \<open>search\<close> only.\<close>

definition search_only :: "nat env" where
  "search_only = offline\<lparr>
     callMcpTool := (\<lambda>n a w.
        if n = ascii ''search'' then (Inr \<lparr>content = ascii ''found'', sources = []\<rparr>, w + 1000)
        else (Inl (JsError (ascii ''unknown tool'')), w + 1000))\<rparr>"

section \<open>The claims in the words of the specification\<close>

text \<open>The text segments of a tool response, in response order: the elements of the
  content array that are tagged as text and carry a string.\<close>

definition text_segments :: "call_result \<Rightarrow> jsstring list" where
  "text_segments result =
     (case result_content result of
        None \<Rightarrow> []
      | Some items \<Rightarrow>
          List.map_filter
            (\<lambda>item. if item_type item = ascii ''text'' then item_text item else None) items)"

text \<open>Every markdown link of every text segment, in order, with repetitions.\<close>

definition all_links :: "call_result \<Rightarrow> jsstring list" where
  "all_links result = concat (map (match_all link_regex) (text_segments result))"

text \<open>A tool response whose text segments are the given strings.\<close>

definition text_response :: "jsstring list \<Rightarrow> call_result" where
  "text_response ts =
     \<lparr>result_content = Some (map (\<lambda>t. \<lparr>item_type = ascii ''text'', item_text = Some t\<rparr>) ts)\<rparr>"

section \<open>Properties of the context cache\<close>

lemma getSkillContext_try_fails:
  "fetch_fails (fst (fetch E (SKILL_MD_URL E) (world s))) \<Longrightarrow>
   \<exists>err. getSkillContext_try E now s =
     (Inl err, s\<lparr>world := snd (fetch E (SKILL_MD_URL E) (world s)),
                 trace := trace s @ [EvFetch (SKILL_MD_URL E)]\<rparr>)"
  by (auto simp: getSkillContext_try_def fetch_fails_def Let_def split: prod.splits sum.splits)

lemma getSkillContext_refresh_fails:
  "fetch_fails (fst (fetch E (SKILL_MD_URL E) (world s))) \<Longrightarrow>
   getSkillContext_refresh E now s =
     (case cachedContent s of Some c \<Rightarrow> c | None \<Rightarrow> [],
      s\<lparr>world := snd (fetch E (SKILL_MD_URL E) (world s)),
        trace := trace s @ [EvFetch (SKILL_MD_URL E)]\<rparr>)"
  using getSkillContext_try_fails [of E s now]
  by (auto simp: getSkillContext_refresh_def)

lemma getSkillContext_try_succeeds:
  "fetch E (SKILL_MD_URL E) (world s) = (Inr res, w1) \<Longrightarrow> res_ok res \<Longrightarrow> body res = Inr text \<Longrightarrow>
   getSkillContext_try E now s =
     (Inr text, s\<lparr>world := w1, trace := trace s @ [EvFetch (SKILL_MD_URL E)],
                  cachedContent := Some text, cachedAt := now\<rparr>)"
  by (simp add: getSkillContext_try_def)

text \<open>
  C4. Whatever the state of the cache, when the scope-document fetch fails (the request
  rejects, the status is not 2xx, or reading the body rejects), \<open>getSkillContext\<close> returns
  the cached value, or the empty string when there is none, and leaves \<open>cachedContent\<close>
  and \<open>cachedAt\<close> as they were: a good value is never replaced by an empty one.
\<close>

theorem getSkillContext_failed_fetch_holds:
  assumes "fetch_fails (fst (fetch E (SKILL_MD_URL E) (world s)))"
  shows "fst (getSkillContext E s) = (case cachedContent s of Some c \<Rightarrow> c | None \<Rightarrow> [])
       \<and> cachedContent (snd (getSkillContext E s)) = cachedContent s
       \<and> cachedAt (snd (getSkillContext E s)) = cachedAt s"
  using getSkillContext_refresh_fails [OF assms]
  by (simp add: getSkillContext_def Let_def split: option.splits)

theorem getSkillContext_failed_fetch_holds_witness:
  "fetch_fails (fst (fetch offline (SKILL_MD_URL offline) 4000000))
   \<and> fst (getSkillContext offline
        ((init_state (4000000::nat))\<lparr>cachedContent := Some (ascii ''old''), cachedAt := 7\<rparr>))
       = ascii ''old''
   \<and> cachedContent (snd (getSkillContext offline
        ((init_state (4000000::nat))\<lparr>cachedContent := Some (ascii ''old''), cachedAt := 7\<rparr>)))
       = Some (ascii ''old'')
   \<and> cachedAt (snd (getSkillContext offline
        ((init_state (4000000::nat))\<lparr>cachedContent := Some (ascii ''old''), cachedAt := 7\<rparr>))) = 7"
proof -
  have f: "fetch_fails (fst (fetch offline (SKILL_MD_URL offline) w))" for w
    by (simp add: offline_def fetch_fails_def)
  show ?thesis
    using f [of 4000000]
      getSkillContext_failed_fetch_holds [of offline
        "(init_state (4000000::nat))\<lparr>cachedContent := Some (ascii ''old''), cachedAt := 7\<rparr>"]
    by (simp add: f init_state_def)
qed

lemma fetch_count_snoc: "fetch_count (evs @ [EvFetch u]) = Suc (fetch_count evs)"
  by (simp add: fetch_count_def)

lemma getSkillContext_empty_fails:
  assumes "cachedContent s = None"
    and "fetch_fails (fst (fetch E (SKILL_MD_URL E) (world s)))"
  shows "getSkillContext E s =
     ([], s\<lparr>world := snd (fetch E (SKILL_MD_URL E) (world s)),
            trace := trace s @ [EvFetch (SKILL_MD_URL E)]\<rparr>)"
  using getSkillContext_refresh_fails [OF assms(2)] assms(1)
  by (simp add: getSkillContext_def Let_def)

lemma getSkillContext_times_all_fail:
  assumes "\<forall>w. fetch_fails (fst (fetch E (SKILL_MD_URL E) w))"
  shows "cachedContent s = None \<Longrightarrow>
     fst (getSkillContext_times E n s) = replicate n []
     \<and> cachedContent (snd (getSkillContext_times E n s)) = None
     \<and> cachedAt (snd (getSkillContext_times E n s)) = cachedAt s
     \<and> fetch_count (trace (snd (getSkillContext_times E n s))) = fetch_count (trace s) + n"
proof (induction n arbitrary: s)
  case 0
  then show ?case by simp
next
  case (Suc n)
  let ?s1 = "s\<lparr>world := snd (fetch E (SKILL_MD_URL E) (world s)),
               trace := trace s @ [EvFetch (SKILL_MD_URL E)]\<rparr>"
  have step: "getSkillContext E s = ([], ?s1)"
    using getSkillContext_empty_fails [OF Suc.prems] assms by simp
  have "cachedContent ?s1 = None"
    using Suc.prems by simp
  from Suc.IH [OF this] show ?case
    by (simp add: step case_prod_beta fetch_count_snoc)
qed

text \<open>
  C10. When the scope-document fetch fails and nothing has been cached, \<open>getSkillContext\<close>
  returns the empty string and records nothing: \<open>cachedContent\<close> stays \<open>null\<close> and
  \<open>cachedAt\<close> stays 0. So while the endpoint keeps failing, each of \<open>n\<close> calls in a
  row returns the empty string and each one fetches again (\<open>n\<close> fetches in all), whatever
  the clock says.
\<close>

theorem getSkillContext_failure_not_cached:
  assumes "\<forall>w. fetch_fails (fst (fetch E (SKILL_MD_URL E) w))"
    and "cachedContent s = None" and "cachedAt s = 0"
  shows "fst (getSkillContext E s) = []
       \<and> cachedContent (snd (getSkillContext E s)) = None
       \<and> cachedAt (snd (getSkillContext E s)) = 0
       \<and> fst (getSkillContext_times E n s) = replicate n []
       \<and> cachedContent (snd (getSkillContext_times E n s)) = None
       \<and> cachedAt (snd (getSkillContext_times E n s)) = 0
       \<and> fetch_count (trace (snd (getSkillContext_times E n s))) = fetch_count (trace s) + n"
proof -
  have one: "getSkillContext E s =
     ([], s\<lparr>world := snd (fetch E (SKILL_MD_URL E) (world s)),
            trace := trace s @ [EvFetch (SKILL_MD_URL E)]\<rparr>)"
    using getSkillContext_empty_fails [OF assms(2)] assms(1) by simp
  show ?thesis
    using getSkillContext_times_all_fail [OF assms(1) assms(2), of n] assms(2,3)
    by (simp add: one)
qed

theorem getSkillContext_failure_not_cached_witness:
  "(\<forall>w. fetch_fails (fst (fetch offline (SKILL_MD_URL offline) w)))
   \<and> cachedContent (init_state (0::nat)) = None \<and> cachedAt (init_state (0::nat)) = 0
   \<and> fst (getSkillContext offline (init_state 0)) = []
   \<and> fst (getSkillContext_times offline 3 (init_state 0)) = [[], [], []]
   \<and> cachedContent (snd (getSkillContext_times offline 3 (init_state 0))) = None
   \<and> cachedAt (snd (getSkillContext_times offline 3 (init_state 0))) = 0
   \<and> fetch_count (trace (snd (getSkillContext_times offline 3 (init_state 0)))) = 3"
proof -
  have f: "\<forall>w. fetch_fails (fst (fetch offline (SKILL_MD_URL offline) w))"
    by (simp add: offline_def fetch_fails_def)
  have c: "cachedContent (init_state (0::nat)) = None" "cachedAt (init_state (0::nat)) = 0"
    "fetch_count (trace (init_state (0::nat))) = 0"
    by (simp_all add: init_state_def fetch_count_def)
  have r: "replicate 3 ([]::jsstring) = [[], [], []]"
    by (simp add: numeral_3_eq_3)
  show ?thesis
    using getSkillContext_failure_not_cached [OF f c(1) c(2), of 3] f c r
    by simp
qed

lemma getSkillContext_fresh:
  "cachedContent s = Some c \<Longrightarrow> date_now E (world s) - cachedAt s < CACHE_TTL_MS \<Longrightarrow>
   getSkillContext E s = (c, s)"
  by (simp add: getSkillContext_def)

lemma getSkillContext_stale_succeeds:
  assumes "cachedContent s = None \<or> \<not> date_now E (world s) - cachedAt s < CACHE_TTL_MS"
    and "fetch E (SKILL_MD_URL E) (world s) = (Inr res, w1)" and "res_ok res"
    and "body res = Inr text"
  shows "getSkillContext E s =
     (text, s\<lparr>world := w1, trace := trace s @ [EvFetch (SKILL_MD_URL E)],
              cachedContent := Some text, cachedAt := date_now E (world s)\<rparr>)"
  using assms(1) getSkillContext_try_succeeds [OF assms(2-4), of "date_now E (world s)"]
  by (auto simp: getSkillContext_def getSkillContext_refresh_def Let_def split: option.splits)

text \<open>
  C5. When a cached value exists and its age is below one hour, \<open>getSkillContext\<close>
  returns it and changes nothing: the world and the trace are untouched, so no request was
  made. Consequently two calls within the freshness window make exactly one fetch: when
  the first call finds no fresh value and stores the \<open>text\<close> it fetched, a second call
  whose clock reads less than one hour after the first returns \<open>text\<close> as well, without a
  request. (\<open>w2\<close> is the world at the second call: anything may have happened in between.)
\<close>

theorem getSkillContext_fresh_no_fetch:
  "(cachedContent s = Some c \<and> date_now E (world s) - cachedAt s < CACHE_TTL_MS
      \<longrightarrow> getSkillContext E s = (c, s))
   \<and> ((cachedContent s = None \<or> \<not> date_now E (world s) - cachedAt s < CACHE_TTL_MS)
       \<and> fetch E (SKILL_MD_URL E) (world s) = (Inr res, w1) \<and> res_ok res \<and> body res = Inr text
       \<and> date_now E w2 - date_now E (world s) < CACHE_TTL_MS
      \<longrightarrow> fst (getSkillContext E s) = text
        \<and> fst (getSkillContext E ((snd (getSkillContext E s))\<lparr>world := w2\<rparr>)) = text
        \<and> fetch_count (trace (snd (getSkillContext E ((snd (getSkillContext E s))\<lparr>world := w2\<rparr>))))
            = fetch_count (trace s) + 1)"
proof (intro conjI impI)
  assume "cachedContent s = Some c \<and> date_now E (world s) - cachedAt s < CACHE_TTL_MS"
  then show "getSkillContext E s = (c, s)"
    by (simp add: getSkillContext_fresh)
next
  assume a: "(cachedContent s = None \<or> \<not> date_now E (world s) - cachedAt s < CACHE_TTL_MS)
       \<and> fetch E (SKILL_MD_URL E) (world s) = (Inr res, w1) \<and> res_ok res \<and> body res = Inr text
       \<and> date_now E w2 - date_now E (world s) < CACHE_TTL_MS"
  let ?s1 = "s\<lparr>world := w1, trace := trace s @ [EvFetch (SKILL_MD_URL E)],
              cachedContent := Some text, cachedAt := date_now E (world s)\<rparr>"
  have first: "getSkillContext E s = (text, ?s1)"
    using a getSkillContext_stale_succeeds [of s E res w1 "text"] by blast
  have second: "getSkillContext E (?s1\<lparr>world := w2\<rparr>) = (text, ?s1\<lparr>world := w2\<rparr>)"
    using a by (intro getSkillContext_fresh) simp_all
  show "fst (getSkillContext E s) = text"
    by (simp add: first)
  show "fst (getSkillContext E ((snd (getSkillContext E s))\<lparr>world := w2\<rparr>)) = text"
    using second by (simp add: first)
  show "fetch_count (trace (snd (getSkillContext E ((snd (getSkillContext E s))\<lparr>world := w2\<rparr>))))
            = fetch_count (trace s) + 1"
    using second by (simp add: first fetch_count_snoc)
qed

theorem getSkillContext_fresh_no_fetch_witness:
  "cachedContent ((init_state (5000::nat))\<lparr>cachedContent := Some (ascii ''old''), cachedAt := 7\<rparr>)
      = Some (ascii ''old'')
   \<and> date_now skill_online 5000 - 7 < CACHE_TTL_MS
   \<and> getSkillContext skill_online
        ((init_state 5000)\<lparr>cachedContent := Some (ascii ''old''), cachedAt := 7\<rparr>)
      = (ascii ''old'', (init_state 5000)\<lparr>cachedContent := Some (ascii ''old''), cachedAt := 7\<rparr>)
   \<and> cachedContent (init_state (0::nat)) = None
   \<and> fetch skill_online (SKILL_MD_URL skill_online) 0
      = (Inr \<lparr>status = 200, body = Inr (ascii ''scope'')\<rparr>, 1000)
   \<and> res_ok \<lparr>status = 200, body = Inr (ascii ''scope'')\<rparr>
   \<and> date_now skill_online 3599999 - date_now skill_online 0 < CACHE_TTL_MS
   \<and> fst (getSkillContext skill_online (init_state 0)) = ascii ''scope''
   \<and> fst (getSkillContext skill_online
        ((snd (getSkillContext skill_online (init_state 0)))\<lparr>world := 3599999\<rparr>)) = ascii ''scope''
   \<and> fetch_count (trace (snd (getSkillContext skill_online
        ((snd (getSkillContext skill_online (init_state 0)))\<lparr>world := 3599999\<rparr>)))) = 1"
proof -
  have h: "cachedContent (init_state (0::nat)) = None" "world (init_state (0::nat)) = 0"
    "fetch_count (trace (init_state (0::nat))) = 0"
    "fetch skill_online (SKILL_MD_URL skill_online) 0
      = (Inr \<lparr>status = 200, body = Inr (ascii ''scope'')\<rparr>, 1000)"
    "res_ok \<lparr>status = 200, body = Inr (ascii ''scope'')\<rparr>"
    "date_now skill_online 3599999 - date_now skill_online 0 < CACHE_TTL_MS"
    "date_now skill_online 5000 - 7 < CACHE_TTL_MS"
    by (simp_all add: init_state_def fetch_count_def skill_online_def offline_def res_ok_def
        CACHE_TTL_MS_def)
  show ?thesis
    using h
      getSkillContext_fresh_no_fetch [of
        "(init_state (5000::nat))\<lparr>cachedContent := Some (ascii ''old''), cachedAt := 7\<rparr>"
        "ascii ''old''" skill_online]
      getSkillContext_fresh_no_fetch [of "init_state (0::nat)" _ skill_online
        "\<lparr>status = 200, body = Inr (ascii ''scope'')\<rparr>" 1000 "ascii ''scope''" 3599999]
    by (simp add: init_state_def)
qed

section \<open>Properties of the tool client\<close>

lemma collect_item_pair:
  "collect_item item (c, srcs) =
     (case (if item_type item = ascii ''text'' then item_text item else None) of
        None \<Rightarrow> (c, srcs)
      | Some t \<Rightarrow> (c @ t @ [0xA, 0xA], srcs @ match_all link_regex t))"
  by (simp add: collect_item_def str_match_def split: option.splits list.splits)

lemma fold_collect_item:
  "fold collect_item items (c, srcs) =
     (c @ concat (map (\<lambda>t. t @ [0xA, 0xA])
            (List.map_filter (\<lambda>item. if item_type item = ascii ''text'' then item_text item else None) items)),
      srcs @ concat (map (match_all link_regex)
            (List.map_filter (\<lambda>item. if item_type item = ascii ''text'' then item_text item else None) items)))"
proof (induction items arbitrary: c srcs)
  case Nil
  then show ?case by (simp add:)
next
  case (Cons item items)
  show ?case
    by (simp add: collect_item_pair Cons.IH split: option.splits)
qed

lemma extract_result_eq:
  "extract_result r =
     \<lparr>content = trim (concat (map (\<lambda>t. t @ [0xA, 0xA]) (text_segments r))),
      sources = new_Set (all_links r)\<rparr>"
  by (simp add: extract_result_def text_segments_def all_links_def fold_collect_item
      split: option.splits)

lemma fold_new_Set_set:
  "set (fold (\<lambda>x acc. if x \<in> set acc then acc else acc @ [x]) xs acc) = set acc \<union> set xs"
  by (induction xs arbitrary: acc) auto

lemma fold_new_Set_distinct:
  "distinct acc \<Longrightarrow> distinct (fold (\<lambda>x acc. if x \<in> set acc then acc else acc @ [x]) xs acc)"
  by (induction xs arbitrary: acc) auto

lemma fold_new_Set_absorb:
  "set xs \<subseteq> set acc \<Longrightarrow> fold (\<lambda>x acc. if x \<in> set acc then acc else acc @ [x]) xs acc = acc"
  by (induction xs arbitrary: acc) auto

lemma fold_new_Set_fresh:
  "distinct (acc @ xs) \<Longrightarrow> fold (\<lambda>x acc. if x \<in> set acc then acc else acc @ [x]) xs acc = acc @ xs"
  by (induction xs arbitrary: acc) auto

lemma set_new_Set: "set (new_Set xs) = set xs"
  by (simp add: new_Set_def fold_new_Set_set)

lemma distinct_new_Set: "distinct (new_Set xs)"
  by (simp add: new_Set_def fold_new_Set_distinct)

lemma new_Set_distinct_id: "distinct xs \<Longrightarrow> new_Set xs = xs"
  using fold_new_Set_fresh [of "[]" xs] by (simp add: new_Set_def)

lemma new_Set_twice: "new_Set (xs @ xs) = new_Set xs"
  by (simp add: new_Set_def fold_new_Set_absorb fold_new_Set_set)

lemma map_filter_app:
  "List.map_filter f (xs @ ys) = List.map_filter f xs @ List.map_filter f ys"
  by (induction xs) (simp_all split: option.splits)

lemma all_links_append:
  "all_links \<lparr>result_content = Some (xs @ ys)\<rparr>
     = all_links \<lparr>result_content = Some xs\<rparr> @ all_links \<lparr>result_content = Some ys\<rparr>"
  by (simp add: all_links_def text_segments_def map_filter_app)

lemma match_all_example:
  "match_all link_regex (ascii ''[a](http://x) [a](http://x) [b](http://y)'') =
   [ascii ''[a](http://x)'', ascii ''[a](http://x)'', ascii ''[b](http://y)'']"
  by (simp add: match_all.simps match_at_def link_regex_def ascii_def)

lemma match_all_same_url:
  "match_all link_regex (ascii ''[a](http://x) [c](http://x)'') =
   [ascii ''[a](http://x)'', ascii ''[c](http://x)'']"
  by (simp add: match_all.simps match_at_def link_regex_def ascii_def)

lemma all_links_single:
  "all_links \<lparr>result_content = Some [\<lparr>item_type = ascii ''text'', item_text = Some t\<rparr>]\<rparr>
     = match_all link_regex t"
  by (simp add: all_links_def text_segments_def)

lemma plus_ends_iff:
  "r \<in> set (plus_ends a s) \<longleftrightarrow> (\<exists>xs. xs \<noteq> [] \<and> s = xs @ r \<and> (\<forall>c \<in> set xs. atom_ok a c))"
proof (induction s)
  case Nil
  then show ?case by simp
next
  case (Cons c cs)
  show ?case
  proof (cases "atom_ok a c")
    case False
    then show ?thesis
      by (auto simp: Cons_eq_append_conv)
  next
    case True
    show ?thesis
    proof
      assume "r \<in> set (plus_ends a (c # cs))"
      then consider "r = cs" | "r \<in> set (plus_ends a cs)"
        using True by auto
      then show "\<exists>xs. xs \<noteq> [] \<and> c # cs = xs @ r \<and> (\<forall>c \<in> set xs. atom_ok a c)"
      proof cases
        case 1
        then show ?thesis using True by (intro exI [of _ "[c]"]) simp
      next
        case 2
        then obtain xs where "xs \<noteq> []" "cs = xs @ r" "\<forall>c \<in> set xs. atom_ok a c"
          using Cons.IH by blast
        then show ?thesis using True by (intro exI [of _ "c # xs"]) simp
      qed
    next
      assume "\<exists>xs. xs \<noteq> [] \<and> c # cs = xs @ r \<and> (\<forall>c \<in> set xs. atom_ok a c)"
      then obtain xs where xs: "xs \<noteq> []" "c # cs = xs @ r" "\<forall>c \<in> set xs. atom_ok a c"
        by blast
      then obtain ys where ys: "xs = c # ys" "cs = ys @ r"
        by (cases xs) auto
      show "r \<in> set (plus_ends a (c # cs))"
      proof (cases "ys = []")
        case True
        then show ?thesis using ys \<open>atom_ok a c\<close> by simp
      next
        case False
        then have "r \<in> set (plus_ends a cs)"
          using Cons.IH ys xs(3) by auto
        then show ?thesis using \<open>atom_ok a c\<close> by simp
      qed
    qed
  qed
qed

lemma item_ends_One_iff:
  "r \<in> set (item_ends (One a) s) \<longleftrightarrow> (\<exists>c. s = c # r \<and> atom_ok a c)"
  by (cases s) auto

lemma item_ends_Opt_iff:
  "r \<in> set (item_ends (Opt a) s) \<longleftrightarrow> (r = s \<or> (\<exists>c. s = c # r \<and> atom_ok a c))"
  by (cases s) auto

lemma seq_ends_Cons_iff:
  "r \<in> set (seq_ends (i # is) s) \<longleftrightarrow> (\<exists>mid \<in> set (item_ends i s). r \<in> set (seq_ends is mid))"
  by auto

lemma seq_ends_One_Chr:
  "r \<in> set (seq_ends (One (Chr a) # is) s) \<longleftrightarrow> (\<exists>t. s = a # t \<and> r \<in> set (seq_ends is t))"
  by (cases s) auto

lemma seq_ends_Opt_Chr:
  "r \<in> set (seq_ends (Opt (Chr a) # is) s) \<longleftrightarrow>
     (r \<in> set (seq_ends is s) \<or> (\<exists>t. s = a # t \<and> r \<in> set (seq_ends is t)))"
  by (cases s) auto

lemma seq_ends_Plus_NotChr:
  "r \<in> set (seq_ends (Plus (NotChr a) # is) s) \<longleftrightarrow>
     (\<exists>xs t. xs \<noteq> [] \<and> a \<notin> set xs \<and> s = xs @ t \<and> r \<in> set (seq_ends is t))"
proof
  assume "r \<in> set (seq_ends (Plus (NotChr a) # is) s)"
  then obtain t where t: "t \<in> set (plus_ends (NotChr a) s)" and r: "r \<in> set (seq_ends is t)"
    by auto
  from t obtain xs where xs: "xs \<noteq> []" "s = xs @ t" "\<forall>c \<in> set xs. atom_ok (NotChr a) c"
    unfolding plus_ends_iff by (elim exE conjE)
  from xs(3) have "a \<notin> set xs" by auto
  with xs(1,2) r show "\<exists>xs t. xs \<noteq> [] \<and> a \<notin> set xs \<and> s = xs @ t \<and> r \<in> set (seq_ends is t)"
    by (intro exI [of _ xs] exI [of _ t]) simp
next
  assume "\<exists>xs t. xs \<noteq> [] \<and> a \<notin> set xs \<and> s = xs @ t \<and> r \<in> set (seq_ends is t)"
  then obtain xs t where xs: "xs \<noteq> []" "a \<notin> set xs" "s = xs @ t" and r: "r \<in> set (seq_ends is t)"
    by (elim exE conjE)
  have "\<forall>c \<in> set xs. atom_ok (NotChr a) c"
    using xs(2) by auto
  then have "t \<in> set (plus_ends (NotChr a) s)"
    unfolding plus_ends_iff using xs(1,3) by (intro exI [of _ xs]) simp
  with r show "r \<in> set (seq_ends (Plus (NotChr a) # is) s)"
    by auto
qed

lemma link_regex_ends:
  assumes "r \<in> set (seq_ends link_regex s)"
  shows "\<exists>label scheme url.
       s = [0x5B] @ label @ [0x5D, 0x28] @ scheme @ [0x3A, 0x2F, 0x2F] @ url @ [0x29] @ r
     \<and> label \<noteq> [] \<and> 0x5D \<notin> set label \<and> url \<noteq> [] \<and> 0x29 \<notin> set url
     \<and> (scheme = [0x68, 0x74, 0x74, 0x70] \<or> scheme = [0x68, 0x74, 0x74, 0x70, 0x73])"
proof -
  have "\<exists>label url. label \<noteq> [] \<and> 0x5D \<notin> set label \<and> url \<noteq> [] \<and> 0x29 \<notin> set url
      \<and> (s = 0x5B # label @ 0x5D # 0x28 # 0x68 # 0x74 # 0x74 # 0x70
               # 0x3A # 0x2F # 0x2F # url @ 0x29 # r
         \<or> s = 0x5B # label @ 0x5D # 0x28 # 0x68 # 0x74 # 0x74 # 0x70 # 0x73
               # 0x3A # 0x2F # 0x2F # url @ 0x29 # r)"
    using assms unfolding link_regex_def
    apply (simp only: seq_ends_One_Chr seq_ends_Opt_Chr seq_ends_Plus_NotChr)
    apply (simp only: seq_ends.simps(1))
    apply auto
    done
  then obtain label url where ne: "label \<noteq> []" "0x5D \<notin> set label" "url \<noteq> []" "0x29 \<notin> set url"
    and s: "s = 0x5B # label @ 0x5D # 0x28 # 0x68 # 0x74 # 0x74 # 0x70
               # 0x3A # 0x2F # 0x2F # url @ 0x29 # r
         \<or> s = 0x5B # label @ 0x5D # 0x28 # 0x68 # 0x74 # 0x74 # 0x70 # 0x73
               # 0x3A # 0x2F # 0x2F # url @ 0x29 # r"
    by blast
  from s show ?thesis
  proof
    assume "s = 0x5B # label @ 0x5D # 0x28 # 0x68 # 0x74 # 0x74 # 0x70
               # 0x3A # 0x2F # 0x2F # url @ 0x29 # r"
    then show ?thesis
      using ne by (intro exI [of _ label] exI [of _ "[0x68, 0x74, 0x74, 0x70]"] exI [of _ url]) simp
  next
    assume "s = 0x5B # label @ 0x5D # 0x28 # 0x68 # 0x74 # 0x74 # 0x70 # 0x73
               # 0x3A # 0x2F # 0x2F # url @ 0x29 # r"
    then show ?thesis
      using ne
      by (intro exI [of _ label] exI [of _ "[0x68, 0x74, 0x74, 0x70, 0x73]"] exI [of _ url]) simp
  qed
qed

lemma match_at_in_ends: "match_at r s = Some rest \<Longrightarrow> rest \<in> set (seq_ends r s)"
  by (auto simp: match_at_def split: list.splits)

lemma match_at_Nil: "match_at [] s = Some s"
  by (simp add: match_at_def)

lemma match_at_One:
  "match_at is t = Some x \<Longrightarrow> match_at (One (Chr a) # is) (a # t) = Some x"
  by (simp add: match_at_def)

lemma match_at_Opt_take:
  "match_at is t = Some x \<Longrightarrow> match_at (Opt (Chr a) # is) (a # t) = Some x"
  by (auto simp: match_at_def split: list.splits)

lemma match_at_Opt_skip:
  "c \<noteq> a \<Longrightarrow> match_at is (c # t) = Some x \<Longrightarrow> match_at (Opt (Chr a) # is) (c # t) = Some x"
  by (simp add: match_at_def)

lemma plus_ends_longest:
  "xs \<noteq> [] \<Longrightarrow> a \<notin> set xs \<Longrightarrow> \<exists>others. plus_ends (NotChr a) (xs @ a # t) = (a # t) # others"
proof (induction xs)
  case Nil
  then show ?case by simp
next
  case (Cons c xs)
  show ?case
  proof (cases "xs = []")
    case True
    then show ?thesis using Cons.prems by auto
  next
    case False
    then obtain others where "plus_ends (NotChr a) (xs @ a # t) = (a # t) # others"
      using Cons by auto
    then show ?thesis using Cons.prems by auto
  qed
qed

lemma match_at_Plus:
  assumes "xs \<noteq> []" and "a \<notin> set xs" and "match_at is (a # t) = Some x"
  shows "match_at (Plus (NotChr a) # is) (xs @ a # t) = Some x"
proof -
  obtain others where "plus_ends (NotChr a) (xs @ a # t) = (a # t) # others"
    using plus_ends_longest [OF assms(1,2)] by blast
  then show ?thesis
    using assms(3) by (auto simp: match_at_def split: list.splits)
qed

lemma match_at_link:
  assumes "label \<noteq> []" and "0x5D \<notin> set label" and "url \<noteq> []" and "0x29 \<notin> set url"
    and "scheme = [0x68, 0x74, 0x74, 0x70] \<or> scheme = [0x68, 0x74, 0x74, 0x70, 0x73]"
  shows "match_at link_regex
      ([0x5B] @ label @ [0x5D, 0x28] @ scheme @ [0x3A, 0x2F, 0x2F] @ url @ [0x29] @ rest) = Some rest"
  using assms(5)
proof
  assume "scheme = [0x68, 0x74, 0x74, 0x70]"
  moreover have "match_at link_regex
      (0x5B # label @ 0x5D # 0x28 # 0x68 # 0x74 # 0x74 # 0x70 # 0x3A # 0x2F # 0x2F # url @ 0x29 # rest)
      = Some rest"
    unfolding link_regex_def
    apply (rule match_at_One)
    apply (rule match_at_Plus [OF assms(1,2)])
    apply (rule match_at_One)+
    apply (rule match_at_Opt_skip, simp)
    apply (rule match_at_One)+
    apply (rule match_at_Plus [OF assms(3,4)])
    apply (rule match_at_One)
    apply (rule match_at_Nil)
    done
  ultimately show ?thesis by simp
next
  assume "scheme = [0x68, 0x74, 0x74, 0x70, 0x73]"
  moreover have "match_at link_regex
      (0x5B # label @ 0x5D # 0x28 # 0x68 # 0x74 # 0x74 # 0x70 # 0x73 # 0x3A # 0x2F # 0x2F
         # url @ 0x29 # rest) = Some rest"
    unfolding link_regex_def
    apply (rule match_at_One)
    apply (rule match_at_Plus [OF assms(1,2)])
    apply (rule match_at_One)+
    apply (rule match_at_Opt_take)
    apply (rule match_at_One)+
    apply (rule match_at_Plus [OF assms(3,4)])
    apply (rule match_at_One)
    apply (rule match_at_Nil)
    done
  ultimately show ?thesis by simp
qed

lemma match_all_Nil: "match_all link_regex [] = []"
  by (simp add: match_all.simps match_at_def link_regex_def)

lemma match_all_links:
  "m \<in> set (match_all link_regex s) \<Longrightarrow>
   \<exists>label scheme url.
       m = [0x5B] @ label @ [0x5D, 0x28] @ scheme @ [0x3A, 0x2F, 0x2F] @ url @ [0x29]
     \<and> label \<noteq> [] \<and> 0x5D \<notin> set label \<and> url \<noteq> [] \<and> 0x29 \<notin> set url
     \<and> (scheme = [0x68, 0x74, 0x74, 0x70] \<or> scheme = [0x68, 0x74, 0x74, 0x70, 0x73])"
proof (induction "length s" arbitrary: s rule: less_induct)
  case less
  show ?case
  proof (cases "match_at link_regex s")
    case None
    show ?thesis
    proof (cases s)
      case Nil
      then show ?thesis using less.prems by (simp add: match_all_Nil)
    next
      case (Cons c cs)
      then have "m \<in> set (match_all link_regex cs)"
        using less.prems None by (subst (asm) match_all.simps) simp
      then show ?thesis
        using less.hyps [of cs] Cons by simp
    qed
  next
    case (Some rest)
    then obtain label scheme url where
      s: "s = [0x5B] @ label @ [0x5D, 0x28] @ scheme @ [0x3A, 0x2F, 0x2F] @ url @ [0x29] @ rest"
      and shape: "label \<noteq> []" "0x5D \<notin> set label" "url \<noteq> []" "0x29 \<notin> set url"
        "scheme = [0x68, 0x74, 0x74, 0x70] \<or> scheme = [0x68, 0x74, 0x74, 0x70, 0x73]"
      using link_regex_ends [OF match_at_in_ends] by blast
    define found where
      "found = [0x5B] @ label @ [0x5D, 0x28] @ scheme @ [0x3A, 0x2F, 0x2F] @ url @ [0x29]"
    have split: "s = found @ rest"
      using s by (simp add: found_def)
    have "found \<noteq> []"
      by (simp add: found_def)
    then have shorter: "length rest < length s"
      using split by simp
    have taken: "take (length s - length rest) s = found"
      using split by simp
    have "match_all link_regex s = found # match_all link_regex rest"
      using Some shorter taken by (subst match_all.simps) simp
    then consider "m = found" | "m \<in> set (match_all link_regex rest)"
      using less.prems by auto
    then show ?thesis
    proof cases
      case 1
      then show ?thesis using shape unfolding found_def by blast
    next
      case 2
      then show ?thesis using less.hyps [OF shorter] by blast
    qed
  qed
qed

lemma match_all_of_link:
  assumes "m \<in> set (match_all link_regex s)"
  shows "match_all link_regex m = [m]"
proof -
  obtain label scheme url where
    m: "m = [0x5B] @ label @ [0x5D, 0x28] @ scheme @ [0x3A, 0x2F, 0x2F] @ url @ [0x29]"
    and shape: "label \<noteq> []" "0x5D \<notin> set label" "url \<noteq> []" "0x29 \<notin> set url"
      "scheme = [0x68, 0x74, 0x74, 0x70] \<or> scheme = [0x68, 0x74, 0x74, 0x70, 0x73]"
    using match_all_links [OF assms] by blast
  have "match_at link_regex (m @ []) = Some []"
    unfolding m using match_at_link [OF shape, of "[]"] by simp
  then have at: "match_at link_regex m = Some []"
    by simp
  have "m \<noteq> []"
    using m by simp
  then show ?thesis
    using at by (subst match_all.simps) (simp add: match_all_Nil)
qed

lemma all_links_text_response:
  "all_links (text_response ts) = concat (map (match_all link_regex) ts)"
proof -
  have "text_segments (text_response ts) = ts"
    by (induction ts) (simp_all add: text_segments_def text_response_def)
  then show ?thesis by (simp add: all_links_def)
qed

lemma rematch_links:
  "\<forall>m \<in> set ms. match_all link_regex m = [m] \<Longrightarrow> concat (map (match_all link_regex) ms) = ms"
  by (induction ms) simp_all

lemma sources_are_links:
  "m \<in> set (sources (extract_result r)) \<Longrightarrow> \<exists>t. m \<in> set (match_all link_regex t)"
  by (auto simp: extract_result_eq set_new_Set all_links_def)

lemma extract_result_idempotent:
  "sources (extract_result (text_response (sources (extract_result r))))
     = sources (extract_result r)"
proof -
  have "\<forall>m \<in> set (sources (extract_result r)). match_all link_regex m = [m]"
    using sources_are_links match_all_of_link by blast
  then have "all_links (text_response (sources (extract_result r))) = sources (extract_result r)"
    by (simp add: all_links_text_response rematch_links)
  then show ?thesis
    by (simp add: extract_result_eq new_Set_distinct_id distinct_new_Set)
qed

text \<open>
  C7. The sources of a tool response are the markdown links of its text segments with
  repetitions removed, where two matches are the same when they are equal as strings: the
  result has no repetition and holds exactly the links found. Every source is a link
  \<open>[label](url)\<close> whose address starts with \<open>http://\<close> or \<open>https://\<close>. Extraction is
  idempotent: extracting again from the sources found gives the same sources, and a
  response in which every segment comes twice gives the same sources as the response
  itself. For the text \<open>[a](http://x) [a](http://x) [b](http://y)\<close> the result has the two
  entries \<open>[a](http://x)\<close> and \<open>[b](http://y)\<close>; the whole match counts, so two labels on
  one address are two entries.
\<close>

theorem extract_result_sources_deduplicated:
  "sources (extract_result r) = new_Set (all_links r)
   \<and> distinct (sources (extract_result r))
   \<and> set (sources (extract_result r)) = set (all_links r)
   \<and> (\<forall>m \<in> set (sources (extract_result r)).
        \<exists>label scheme url.
          m = ascii ''['' @ label @ ascii '']('' @ scheme @ ascii ''://'' @ url @ ascii '')''
          \<and> label \<noteq> [] \<and> 0x5D \<notin> set label \<and> url \<noteq> [] \<and> 0x29 \<notin> set url
          \<and> (scheme = ascii ''http'' \<or> scheme = ascii ''https''))
   \<and> sources (extract_result (text_response (sources (extract_result r))))
       = sources (extract_result r)
   \<and> sources (extract_result \<lparr>result_content = Some (items @ items)\<rparr>)
       = sources (extract_result \<lparr>result_content = Some items\<rparr>)
   \<and> sources (extract_result (text_response
         [ascii ''[a](http://x) [a](http://x) [b](http://y)'']))
       = [ascii ''[a](http://x)'', ascii ''[b](http://y)'']
   \<and> length (sources (extract_result (text_response
         [ascii ''[a](http://x) [a](http://x) [b](http://y)'']))) = 2
   \<and> sources (extract_result (text_response [ascii ''[a](http://x) [c](http://x)'']))
       = [ascii ''[a](http://x)'', ascii ''[c](http://x)'']"
proof -
  have ab: "ascii ''[a](http://x)'' \<noteq> ascii ''[b](http://y)''"
    and ac: "ascii ''[a](http://x)'' \<noteq> ascii ''[c](http://x)''"
    by (simp_all add: ascii_def)
  have two: "new_Set [ascii ''[a](http://x)'', ascii ''[a](http://x)'', ascii ''[b](http://y)'']
      = [ascii ''[a](http://x)'', ascii ''[b](http://y)'']"
    using ab by (simp add: new_Set_def)
  have other: "new_Set [ascii ''[a](http://x)'', ascii ''[c](http://x)'']
      = [ascii ''[a](http://x)'', ascii ''[c](http://x)'']"
    using ac by (simp add: new_Set_def)
  have twice: "new_Set (all_links \<lparr>result_content = Some (items @ items)\<rparr>)
      = new_Set (all_links \<lparr>result_content = Some items\<rparr>)"
    by (simp add: all_links_append new_Set_twice)
  have shape: "\<forall>m \<in> set (sources (extract_result r)).
        \<exists>label scheme url.
          m = ascii ''['' @ label @ ascii '']('' @ scheme @ ascii ''://'' @ url @ ascii '')''
          \<and> label \<noteq> [] \<and> 0x5D \<notin> set label \<and> url \<noteq> [] \<and> 0x29 \<notin> set url
          \<and> (scheme = ascii ''http'' \<or> scheme = ascii ''https'')"
  proof
    fix m
    assume "m \<in> set (sources (extract_result r))"
    then obtain t where "m \<in> set (match_all link_regex t)"
      using sources_are_links by blast
    from match_all_links [OF this] show "\<exists>label scheme url.
          m = ascii ''['' @ label @ ascii '']('' @ scheme @ ascii ''://'' @ url @ ascii '')''
          \<and> label \<noteq> [] \<and> 0x5D \<notin> set label \<and> url \<noteq> [] \<and> 0x29 \<notin> set url
          \<and> (scheme = ascii ''http'' \<or> scheme = ascii ''https'')"
      by (simp add: ascii_def)
  qed
  have basics: "sources (extract_result r) = new_Set (all_links r)"
    "distinct (sources (extract_result r))"
    "set (sources (extract_result r)) = set (all_links r)"
    by (simp_all add: extract_result_eq distinct_new_Set set_new_Set)
  have examples: "sources (extract_result (text_response
         [ascii ''[a](http://x) [a](http://x) [b](http://y)'']))
       = [ascii ''[a](http://x)'', ascii ''[b](http://y)'']"
    "sources (extract_result (text_response [ascii ''[a](http://x) [c](http://x)'']))
       = [ascii ''[a](http://x)'', ascii ''[c](http://x)'']"
    by (simp_all add: extract_result_eq all_links_text_response match_all_example
        match_all_same_url two other)
  have doubled: "sources (extract_result \<lparr>result_content = Some (items @ items)\<rparr>)
       = sources (extract_result \<lparr>result_content = Some items\<rparr>)"
    by (simp add: extract_result_eq twice)
  have len: "length (sources (extract_result (text_response
         [ascii ''[a](http://x) [a](http://x) [b](http://y)'']))) = 2"
    by (simp add: examples(1))
  show ?thesis
    by (intro conjI basics shape extract_result_idempotent doubled examples len)
qed

theorem extract_result_sources_deduplicated_witness:
  "ascii ''[b](http://y)'' \<in> set (sources (extract_result (text_response
       [ascii ''[a](http://x) [a](http://x) [b](http://y)''])))
   \<and> (\<exists>label scheme url.
          ascii ''[b](http://y)''
            = ascii ''['' @ label @ ascii '']('' @ scheme @ ascii ''://'' @ url @ ascii '')''
          \<and> label \<noteq> [] \<and> 0x5D \<notin> set label \<and> url \<noteq> [] \<and> 0x29 \<notin> set url
          \<and> (scheme = ascii ''http'' \<or> scheme = ascii ''https''))"
proof -
  note dedup = extract_result_sources_deduplicated [of
      "text_response [ascii ''[a](http://x) [a](http://x) [b](http://y)'']" "[]"]
  note shape = dedup [THEN conjunct2, THEN conjunct2, THEN conjunct2, THEN conjunct1]
  note example = dedup [THEN conjunct2, THEN conjunct2, THEN conjunct2, THEN conjunct2,
      THEN conjunct2, THEN conjunct2, THEN conjunct1]
  have found: "ascii ''[b](http://y)'' \<in> set (sources (extract_result (text_response
       [ascii ''[a](http://x) [a](http://x) [b](http://y)''])))"
    by (simp add: example)
  from shape [rule_format, OF found] found show ?thesis
    by (intro conjI)
qed

text \<open>
  C8, the claim as stated fails: for the single segment \<open>abc\<close> the content is \<open>abc\<close>,
  not \<open>abc\<close> followed by the blank-line separator.
\<close>

theorem extract_result_content_trimmed:
  "content (extract_result \<lparr>result_content = Some
       [\<lparr>item_type = ascii ''text'', item_text = Some (ascii ''abc'')\<rparr>]\<rparr>) = ascii ''abc''
   \<and> content (extract_result \<lparr>result_content = Some
       [\<lparr>item_type = ascii ''text'', item_text = Some (ascii ''abc'')\<rparr>]\<rparr>)
     \<noteq> concat (map (\<lambda>t. t @ [0xA, 0xA]) (text_segments \<lparr>result_content = Some
       [\<lparr>item_type = ascii ''text'', item_text = Some (ascii ''abc'')\<rparr>]\<rparr>))"
  by (simp add: extract_result_eq text_segments_def trim_def is_js_space_def ascii_def)

text \<open>
  C8, amended. The content of the result is the concatenation of all text segments of the
  response, each followed by the blank-line separator, in response order, with the white
  space at both ends of the whole removed (\<open>content.trim()\<close>).
\<close>

theorem extract_result_content:
  "content (extract_result r)
     = trim (concat (map (\<lambda>t. t @ [0xA, 0xA]) (text_segments r)))"
  by (simp add: extract_result_eq)

text \<open>
  C3, on the code. The endpoint refuses the first connection. The first \<open>getClient\<close> fails,
  and leaves in \<open>client\<close> the object that never connected. The second \<open>getClient\<close>
  returns that object as it is and changes nothing (no connection is tried, although one
  would now succeed), and \<open>searchDocuments\<close> fails on it.
\<close>

theorem getClient_failed_connect_is_kept:
  "fst (getClient flaky (init_state 0)) = Inl (JsError (ascii ''ECONNREFUSED''))
   \<and> client (snd (getClient flaky (init_state 0))) = Some \<lparr>connected = False\<rparr>
   \<and> getClient flaky (snd (getClient flaky (init_state 0)))
       = (Inr \<lparr>connected = False\<rparr>, snd (getClient flaky (init_state 0)))
   \<and> fst (mcp_connect flaky (world (snd (getClient flaky (init_state 0))))) = Inr ()
   \<and> fst (searchDocuments flaky (ascii ''vast'') (snd (getClient flaky (init_state 0))))
       = Inl (JsError (ascii ''Not connected''))"
  by (simp add: getClient_def searchDocuments_def flaky_def mcp_up_def offline_def init_state_def)

lemma searchDocuments_no_tool:
  assumes "getClient E s = (Inr c, s1)" and "mcp_listTools E c (world s1) = (Inr tools, w2)"
    and "find (is_search_tool E) tools = None"
  shows "searchDocuments E query s =
     (Inr \<lparr>content = [], sources = []\<rparr>, s1\<lparr>world := w2, trace := trace s1 @ [EvListTools]\<rparr>)"
  using assms by (simp add: searchDocuments_def)

lemma searchDocuments_call_fails:
  assumes "getClient E s = (Inr c, s1)" and "mcp_listTools E c (world s1) = (Inr tools, w2)"
    and "find (is_search_tool E) tools = Some t"
    and "mcp_callTool E c (tool_name t) (JObj [(ascii ''query'', JStr query)]) w2 = (Inl err, w3)"
  shows "fst (searchDocuments E query s) = Inl err"
  using assms by (simp add: searchDocuments_def)

text \<open>
  C9, the claim as stated fails: when the catalog has no search tool, \<open>searchDocuments\<close>
  calls no tool and returns the empty result; nothing is raised.
\<close>

theorem searchDocuments_no_tool_empty_result:
  "fst (searchDocuments no_search_tool (ascii ''vast'') (init_state 0))
     = Inr \<lparr>content = [], sources = []\<rparr>
   \<and> trace (snd (searchDocuments no_search_tool (ascii ''vast'') (init_state 0)))
     = [EvConnect, EvListTools, EvListTools]"
  by (simp add: searchDocuments_def getClient_def no_search_tool_def mcp_up_def offline_def
      init_state_def is_search_tool_def ascii_lower_def ascii_def)

text \<open>
  C9, amended. \<open>searchDocuments\<close> is not given a tool name: it takes the first tool of the
  catalog whose lower-cased name contains \<open>search\<close> or \<open>query\<close>. When the catalog has no
  such tool, it calls no tool and returns the empty result (content \<open>''\<close>, no sources)
  without raising anything. When the call of the chosen tool fails, that error reaches the
  caller as it was thrown.
\<close>

theorem searchDocuments_tool_selection:
  assumes "getClient E s = (Inr c, s1)"
    and "mcp_listTools E c (world s1) = (Inr tools, w2)"
  shows "((\<forall>t \<in> set tools. \<not> is_search_tool E t) \<longrightarrow>
            searchDocuments E query s =
              (Inr \<lparr>content = [], sources = []\<rparr>,
               s1\<lparr>world := w2, trace := trace s1 @ [EvListTools]\<rparr>))
       \<and> (find (is_search_tool E) tools = Some t
           \<and> mcp_callTool E c (tool_name t) (JObj [(ascii ''query'', JStr query)]) w2
               = (Inl err, w3) \<longrightarrow>
            fst (searchDocuments E query s) = Inl err)"
proof (intro conjI impI)
  assume "\<forall>t \<in> set tools. \<not> is_search_tool E t"
  then have "find (is_search_tool E) tools = None"
    by (simp add: find_None_iff)
  then show "searchDocuments E query s =
      (Inr \<lparr>content = [], sources = []\<rparr>, s1\<lparr>world := w2, trace := trace s1 @ [EvListTools]\<rparr>)"
    using assms by (simp add: searchDocuments_no_tool)
next
  assume "find (is_search_tool E) tools = Some t
     \<and> mcp_callTool E c (tool_name t) (JObj [(ascii ''query'', JStr query)]) w2 = (Inl err, w3)"
  then show "fst (searchDocuments E query s) = Inl err"
    using assms searchDocuments_call_fails [of E s c s1 tools w2 t query err w3] by blast
qed

theorem searchDocuments_tool_selection_witness:
  "getClient no_search_tool (init_state 0)
     = (Inr \<lparr>connected = True\<rparr>,
        \<lparr>world = 2000, trace = [EvConnect, EvListTools], cachedContent = None, cachedAt = 0,
         client = Some \<lparr>connected = True\<rparr>, genAI = False\<rparr>)
   \<and> mcp_listTools no_search_tool \<lparr>connected = True\<rparr> 2000
     = (Inr [\<lparr>tool_name = ascii ''fetch_page'', tool_description = []\<rparr>], 3000)
   \<and> is_search_tool no_search_tool \<lparr>tool_name = ascii ''fetch_page'', tool_description = []\<rparr>
     = False
   \<and> searchDocuments no_search_tool (ascii ''vast'') (init_state 0)
     = (Inr \<lparr>content = [], sources = []\<rparr>,
        \<lparr>world = 3000, trace = [EvConnect, EvListTools, EvListTools], cachedContent = None,
         cachedAt = 0, client = Some \<lparr>connected = True\<rparr>, genAI = False\<rparr>)
   \<and> getClient tool_down (init_state 0)
     = (Inr \<lparr>connected = True\<rparr>,
        \<lparr>world = 2000, trace = [EvConnect, EvListTools], cachedContent = None, cachedAt = 0,
         client = Some \<lparr>connected = True\<rparr>, genAI = False\<rparr>)
   \<and> find (is_search_tool tool_down)
        [\<lparr>tool_name = ascii ''fetch_page'', tool_description = []\<rparr>,
         \<lparr>tool_name = ascii ''Search_Docs'', tool_description = []\<rparr>]
     = Some \<lparr>tool_name = ascii ''Search_Docs'', tool_description = []\<rparr>
   \<and> mcp_callTool tool_down \<lparr>connected = True\<rparr> (ascii ''Search_Docs'')
        (JObj [(ascii ''query'', JStr (ascii ''vast''))]) 3000
     = (Inl (JsError (ascii ''tool failed'')), 4000)
   \<and> fst (searchDocuments tool_down (ascii ''vast'') (init_state 0))
     = Inl (JsError (ascii ''tool failed''))"
proof -
  let ?s1 = "\<lparr>world = 2000::nat, trace = [EvConnect, EvListTools], cachedContent = None,
      cachedAt = 0, client = Some \<lparr>connected = True\<rparr>, genAI = False\<rparr>"
  let ?fetch = "\<lparr>tool_name = ascii ''fetch_page'', tool_description = []\<rparr>"
  let ?search = "\<lparr>tool_name = ascii ''Search_Docs'', tool_description = []\<rparr>"
  have g1: "getClient no_search_tool (init_state 0) = (Inr \<lparr>connected = True\<rparr>, ?s1)"
    by (simp add: getClient_def no_search_tool_def mcp_up_def offline_def init_state_def)
  have l1: "mcp_listTools no_search_tool \<lparr>connected = True\<rparr> (world ?s1) = (Inr [?fetch], 3000)"
    by (simp add: no_search_tool_def mcp_up_def offline_def)
  have n1: "\<forall>t \<in> set [?fetch]. \<not> is_search_tool no_search_tool t"
    by (simp add: is_search_tool_def no_search_tool_def mcp_up_def offline_def ascii_lower_def
        ascii_def)
  have g2: "getClient tool_down (init_state 0) = (Inr \<lparr>connected = True\<rparr>, ?s1)"
    by (simp add: getClient_def tool_down_def mcp_up_def offline_def init_state_def)
  have l2: "mcp_listTools tool_down \<lparr>connected = True\<rparr> (world ?s1)
      = (Inr [?fetch, ?search], 3000)"
    by (simp add: tool_down_def mcp_up_def offline_def)
  have f2: "find (is_search_tool tool_down) [?fetch, ?search] = Some ?search"
    by (simp add: is_search_tool_def tool_down_def mcp_up_def offline_def ascii_lower_def
        ascii_def)
  have c2: "mcp_callTool tool_down \<lparr>connected = True\<rparr> (tool_name ?search)
        (JObj [(ascii ''query'', JStr (ascii ''vast''))]) 3000
      = (Inl (JsError (ascii ''tool failed'')), 4000)"
    by (simp add: tool_down_def mcp_up_def offline_def)
  show ?thesis
    using g1 l1 n1 g2 l2 f2 c2
      searchDocuments_tool_selection [OF g1 l1, of "ascii ''vast''"]
      searchDocuments_tool_selection [OF g2 l2, of "ascii ''vast''" ?search
        "JsError (ascii ''tool failed'')" 4000]
    by simp
qed

section \<open>Properties of the agent loop\<close>

lemma model_calls_append: "model_calls (xs @ ys) = model_calls xs @ model_calls ys"
  by (induction xs rule: model_calls.induct) simp_all

lemma tool_calls_append: "tool_calls (xs @ ys) = tool_calls xs @ tool_calls ys"
  by (induction xs rule: tool_calls.induct) simp_all

lemma execute_calls_acc:
  "execute_calls E calls acc s
     = (acc @ fst (execute_calls E calls [] s), snd (execute_calls E calls [] s))"
proof (induction calls arbitrary: acc s)
  case Nil
  then show ?case by simp
next
  case (Cons call calls)
  show ?case
    by (simp add: case_prod_beta Cons.IH [of "acc @ _"] Cons.IH [of "[_]"])
qed

lemma execute_calls_append:
  "execute_calls E (xs @ ys) [] s =
     (fst (execute_calls E xs [] s) @ fst (execute_calls E ys [] (snd (execute_calls E xs [] s))),
      snd (execute_calls E ys [] (snd (execute_calls E xs [] s))))"
proof (induction xs arbitrary: s)
  case Nil
  then show ?case by simp
next
  case (Cons x xs)
  show ?case
    by (simp add: case_prod_beta execute_calls_acc [of _ _ "[_]"] Cons.IH)
qed

lemma execute_calls_length: "length (fst (execute_calls E calls [] s)) = length calls"
proof (induction calls arbitrary: s)
  case Nil
  then show ?case by simp
next
  case (Cons x xs)
  show ?case
    by (simp add: case_prod_beta execute_calls_acc [of _ _ "[_]"] Cons.IH)
qed

lemma execute_calls_trace:
  "trace (snd (execute_calls E calls acc s))
     = trace s @ map (\<lambda>c. EvCallMcpTool (call_name c) (call_args c)) calls"
  by (induction calls arbitrary: acc s) (simp_all add: case_prod_beta)

lemma model_calls_tool_events:
  "model_calls (map (\<lambda>c. EvCallMcpTool (call_name c) (call_args c)) calls) = []"
  by (induction calls) simp_all

lemma tool_calls_tool_events:
  "tool_calls (map (\<lambda>c. EvCallMcpTool (call_name c) (call_args c)) calls)
     = map (\<lambda>c. (call_name c, call_args c)) calls"
  by (induction calls) simp_all

lemma execute_calls_nth:
  assumes "i < length calls"
  shows "fst (execute_calls E calls [] s) ! i
     = call_part (calls ! i)
         (fst (callMcpTool E (call_name (calls ! i)) (call_args (calls ! i))
                (world (snd (execute_calls E (take i calls) [] s)))))"
proof -
  have split: "calls = take i calls @ (calls ! i # drop (Suc i) calls)"
    using assms by (simp add: id_take_nth_drop)
  have len: "length (fst (execute_calls E (take i calls) [] s)) = i"
    using assms by (simp add: execute_calls_length)
  have "fst (execute_calls E calls [] s)
      = fst (execute_calls E (take i calls) [] s)
        @ fst (execute_calls E (calls ! i # drop (Suc i) calls) []
                 (snd (execute_calls E (take i calls) [] s)))"
    using execute_calls_append [of E "take i calls" "calls ! i # drop (Suc i) calls" s] split
    by simp
  then have "fst (execute_calls E calls [] s) ! i
      = fst (execute_calls E (calls ! i # drop (Suc i) calls) []
                 (snd (execute_calls E (take i calls) [] s))) ! 0"
    using len by (simp add: nth_append)
  then show ?thesis
    by (simp add: case_prod_beta execute_calls_acc [of _ _ "[_]"])
qed

lemma sendMessage_trace:
  "trace (snd (snd (sendMessage E chat m s)))
     = trace s @ [EvSendMessage m (fst (sendMessage E chat m s))]"
  by (simp add: sendMessage_def split: prod.splits sum.splits)

lemma agent_loop_stop:
  "\<not> iteration < MAX_ITERATIONS \<or> functionCalls result = None \<or> functionCalls result = Some [] \<Longrightarrow>
   agent_loop E iteration result chat s = (Inr (iteration, result), s)"
  by (auto simp: agent_loop.simps)

lemma agent_loop_step:
  assumes "iteration < MAX_ITERATIONS" and "functionCalls result = Some calls"
    and "calls \<noteq> []"
  shows "agent_loop E iteration result chat s =
     (case sendMessage E chat (MsgParts (fst (execute_calls E calls [] s)))
             (snd (execute_calls E calls [] s)) of
        (Inl err, chat', s2) \<Rightarrow> (Inl err, s2)
      | (Inr result', chat', s2) \<Rightarrow> agent_loop E (iteration + 1) result' chat' s2)"
proof -
  obtain c cs where "calls = c # cs"
    using assms(3) by (cases calls) auto
  then show ?thesis
    using assms(1,2)
    by (subst agent_loop.simps) (simp del: execute_calls.simps add: case_prod_beta)
qed

lemma agent_loop_cases:
  obtains (stop) "agent_loop E i r chat s = (Inr (i, r), s)"
  | (fail) calls err chat' s2 where "i < MAX_ITERATIONS" "functionCalls r = Some calls"
      "calls \<noteq> []"
      "sendMessage E chat (MsgParts (fst (execute_calls E calls [] s)))
             (snd (execute_calls E calls [] s)) = (Inl err, chat', s2)"
      "agent_loop E i r chat s = (Inl err, s2)"
  | (continue) calls r1 chat' s2 where "i < MAX_ITERATIONS" "functionCalls r = Some calls"
      "calls \<noteq> []"
      "sendMessage E chat (MsgParts (fst (execute_calls E calls [] s)))
             (snd (execute_calls E calls [] s)) = (Inr r1, chat', s2)"
      "agent_loop E i r chat s = agent_loop E (i + 1) r1 chat' s2"
proof (cases "i < MAX_ITERATIONS \<and> (\<exists>calls. functionCalls r = Some calls \<and> calls \<noteq> [])")
  case False
  then have "\<not> i < MAX_ITERATIONS \<or> functionCalls r = None \<or> functionCalls r = Some []"
    by (cases "functionCalls r") auto
  then show ?thesis using stop agent_loop_stop by blast
next
  case True
  then obtain calls where lt: "i < MAX_ITERATIONS" and fc: "functionCalls r = Some calls"
    and ne: "calls \<noteq> []"
    by blast
  obtain out chat' s2 where
    sm: "sendMessage E chat (MsgParts (fst (execute_calls E calls [] s)))
             (snd (execute_calls E calls [] s)) = (out, chat', s2)"
    using prod_cases3 by blast
  show ?thesis
  proof (cases out)
    case (Inl err)
    then show ?thesis
      using fail [OF lt fc ne] sm agent_loop_step [OF lt fc ne, of E chat s] by simp
  next
    case (Inr r1)
    then show ?thesis
      using continue [OF lt fc ne] sm agent_loop_step [OF lt fc ne, of E chat s] by simp
  qed
qed

lemma agent_loop_iteration:
  "agent_loop E i r chat s = (Inr (it, r'), s') \<Longrightarrow> i \<le> MAX_ITERATIONS \<Longrightarrow> it \<le> MAX_ITERATIONS"
proof (induction "MAX_ITERATIONS - i" arbitrary: i r chat s)
  case 0
  then show ?case
    using agent_loop_stop [of i r E chat s] by simp
next
  case (Suc k)
  show ?case
  proof (cases rule: agent_loop_cases [of E i r chat s])
    case stop
    then show ?thesis using Suc.prems by simp
  next
    case (fail calls err chat' s2)
    then show ?thesis using Suc.prems by simp
  next
    case (continue calls r1 chat' s2)
    have "k = MAX_ITERATIONS - (i + 1)" using Suc.hyps(2) by simp
    from Suc.hyps(1) [OF this] show ?thesis
      using continue Suc.prems by simp
  qed
qed

lemma agent_loop_model_calls:
  "length (model_calls (trace (snd (agent_loop E i r chat s))))
     \<le> length (model_calls (trace s)) + (MAX_ITERATIONS - i)"
proof (induction "MAX_ITERATIONS - i" arbitrary: i r chat s)
  case 0
  then show ?case
    using agent_loop_stop [of i r E chat s] by simp
next
  case (Suc k)
  show ?case
  proof (cases rule: agent_loop_cases [of E i r chat s])
    case stop
    then show ?thesis by simp
  next
    case (fail calls err chat' s2)
    have "trace s2 = trace s @ map (\<lambda>c. EvCallMcpTool (call_name c) (call_args c)) calls
        @ [EvSendMessage (MsgParts (fst (execute_calls E calls [] s))) (Inl err)]"
      using sendMessage_trace [of E chat "MsgParts (fst (execute_calls E calls [] s))"
          "snd (execute_calls E calls [] s)"] fail(4)
      by (simp add: execute_calls_trace)
    then show ?thesis
      using fail(1,5) by (simp add: model_calls_append model_calls_tool_events)
  next
    case (continue calls r1 chat' s2)
    have tr: "trace s2 = trace s @ map (\<lambda>c. EvCallMcpTool (call_name c) (call_args c)) calls
        @ [EvSendMessage (MsgParts (fst (execute_calls E calls [] s))) (Inr r1)]"
      using sendMessage_trace [of E chat "MsgParts (fst (execute_calls E calls [] s))"
          "snd (execute_calls E calls [] s)"] continue(4)
      by (simp add: execute_calls_trace)
    have "k = MAX_ITERATIONS - (i + 1)" using Suc.hyps(2) by simp
    from Suc.hyps(1) [OF this, of r1 chat' s2] show ?thesis
      using continue(1,5) tr by (simp add: model_calls_append model_calls_tool_events)
  qed
qed

lemma tool_rounds_append: "tool_rounds (xs @ ys) = tool_rounds xs + tool_rounds ys"
  by (simp add: tool_rounds_def model_calls_append)

lemma tool_rounds_simps:
  "tool_rounds [] = 0"
  "tool_rounds [EvSendMessage (MsgParts ps) out] = 1"
  "tool_rounds [EvSendMessage (MsgText q) out] = 0"
  "tool_rounds [EvGetGeminiTools] = 0"
  "tool_rounds [EvFetch u] = 0"
  "tool_rounds (map (\<lambda>c. EvCallMcpTool (call_name c) (call_args c)) calls) = 0"
  by (simp_all add: tool_rounds_def model_calls_tool_events)

lemma round_trace:
  assumes "sendMessage E chat (MsgParts (fst (execute_calls E calls [] s)))
             (snd (execute_calls E calls [] s)) = (out, chat', s2)"
  shows "trace s2 = trace s @ map (\<lambda>c. EvCallMcpTool (call_name c) (call_args c)) calls
        @ [EvSendMessage (MsgParts (fst (execute_calls E calls [] s))) out]"
  using sendMessage_trace [of E chat "MsgParts (fst (execute_calls E calls [] s))"
      "snd (execute_calls E calls [] s)"] assms
  by (simp add: execute_calls_trace)

lemma agent_loop_tool_rounds:
  "tool_rounds (trace (snd (agent_loop E i r chat s)))
     \<le> tool_rounds (trace s) + (MAX_ITERATIONS - i)"
proof (induction "MAX_ITERATIONS - i" arbitrary: i r chat s)
  case 0
  then show ?case
    using agent_loop_stop [of i r E chat s] by simp
next
  case (Suc k)
  show ?case
  proof (cases rule: agent_loop_cases [of E i r chat s])
    case stop
    then show ?thesis by simp
  next
    case (fail calls err chat' s2)
    show ?thesis
      using fail(1,5) round_trace [OF fail(4)]
      by (simp add: tool_rounds_append tool_rounds_simps)
  next
    case (continue calls r1 chat' s2)
    have "k = MAX_ITERATIONS - (i + 1)" using Suc.hyps(2) by simp
    from Suc.hyps(1) [OF this, of r1 chat' s2] show ?thesis
      using continue(1,5) round_trace [OF continue(4)]
      by (simp add: tool_rounds_append tool_rounds_simps)
  qed
qed

lemma sendMessage_always:
  assumes "\<forall>chat m w. \<exists>r w'. llm E chat m w = (Inr r, w') \<and> requests_tool_call r"
  shows "\<exists>r chat' s'. sendMessage E chat m s = (Inr r, chat', s') \<and> requests_tool_call r"
proof -
  obtain r w' where "llm E chat m (world s) = (Inr r, w')" "requests_tool_call r"
    using assms by blast
  then show ?thesis by (simp add: sendMessage_def)
qed

lemma requests_tool_call_iff:
  "requests_tool_call r \<longleftrightarrow> (\<exists>calls. functionCalls r = Some calls \<and> calls \<noteq> [])"
  by (auto simp: requests_tool_call_def split: option.splits list.splits)

lemma agent_loop_always:
  assumes always: "\<forall>chat m w. \<exists>r w'. llm E chat m w = (Inr r, w') \<and> requests_tool_call r"
  shows "requests_tool_call r \<Longrightarrow> i < MAX_ITERATIONS \<Longrightarrow>
     \<exists>r' m s'. agent_loop E i r chat s = (Inr (MAX_ITERATIONS, r'), s')
       \<and> tool_rounds (trace s') = tool_rounds (trace s) + (MAX_ITERATIONS - i)
       \<and> model_calls (trace s') \<noteq> []
       \<and> last (model_calls (trace s')) = (m, Inr r')"
proof (induction "MAX_ITERATIONS - i" arbitrary: i r chat s)
  case 0
  then show ?case by simp
next
  case (Suc k)
  obtain calls where fc: "functionCalls r = Some calls" and ne: "calls \<noteq> []"
    using Suc.prems(1) requests_tool_call_iff by blast
  obtain r1 chat' s2 where
    sm: "sendMessage E chat (MsgParts (fst (execute_calls E calls [] s)))
             (snd (execute_calls E calls [] s)) = (Inr r1, chat', s2)"
    and rq: "requests_tool_call r1"
    using sendMessage_always [OF always] by blast
  have step: "agent_loop E i r chat s = agent_loop E (i + 1) r1 chat' s2"
    using agent_loop_step [OF Suc.prems(2) fc ne, of E chat s] sm by simp
  have tr: "trace s2 = trace s @ map (\<lambda>c. EvCallMcpTool (call_name c) (call_args c)) calls
        @ [EvSendMessage (MsgParts (fst (execute_calls E calls [] s))) (Inr r1)]"
    using round_trace [OF sm] .
  show ?case
  proof (cases "i + 1 < MAX_ITERATIONS")
    case True
    have "k = MAX_ITERATIONS - (i + 1)" using Suc.hyps(2) by simp
    from Suc.hyps(1) [OF this rq True, of chat' s2]
    obtain r' m s' where
      "agent_loop E (i + 1) r1 chat' s2 = (Inr (MAX_ITERATIONS, r'), s')"
      "tool_rounds (trace s') = tool_rounds (trace s2) + (MAX_ITERATIONS - (i + 1))"
      "model_calls (trace s') \<noteq> []" "last (model_calls (trace s')) = (m, Inr r')"
      by blast
    then show ?thesis
      using step tr True by (simp add: tool_rounds_append tool_rounds_simps)
  next
    case False
    then have "i + 1 = MAX_ITERATIONS" using Suc.prems(2) by simp
    then have "agent_loop E i r chat s = (Inr (MAX_ITERATIONS, r1), s2)"
      using step agent_loop_stop [of "i + 1" r1 E chat' s2] by simp
    moreover have "tool_rounds (trace s2) = tool_rounds (trace s) + (MAX_ITERATIONS - i)"
      using tr \<open>i + 1 = MAX_ITERATIONS\<close> by (simp add: tool_rounds_append tool_rounds_simps)
    moreover have "model_calls (trace s2) \<noteq> []"
      "last (model_calls (trace s2)) = (MsgParts (fst (execute_calls E calls [] s)), Inr r1)"
      using tr by (simp_all add: model_calls_append)
    ultimately show ?thesis by blast
  qed
qed

lemma getSkillContext_try_trace:
  "trace (snd (getSkillContext_try E now s)) = trace s @ [EvFetch (SKILL_MD_URL E)]"
  by (simp add: getSkillContext_try_def Let_def split: prod.splits sum.splits)

lemma getSkillContext_refresh_trace:
  "trace (snd (getSkillContext_refresh E now s)) = trace s @ [EvFetch (SKILL_MD_URL E)]"
proof (cases "getSkillContext_try E now s")
  case (Pair out s')
  with getSkillContext_try_trace [of E now s] show ?thesis
    by (cases out) (simp_all add: getSkillContext_refresh_def)
qed

lemma getSkillContext_trace:
  "trace (snd (getSkillContext E s)) = trace s
   \<or> trace (snd (getSkillContext E s)) = trace s @ [EvFetch (SKILL_MD_URL E)]"
  by (simp add: getSkillContext_def Let_def getSkillContext_refresh_trace split: option.splits)

lemma getSkillContext_tool_rounds:
  "tool_rounds (trace (snd (getSkillContext E s))) = tool_rounds (trace s)"
  using getSkillContext_trace [of E s]
  by (auto simp: tool_rounds_append tool_rounds_simps)

lemma generateAnswer_try_tools_fail:
  "getGeminiTools E (world s) = (Inl err, w1) \<Longrightarrow>
   generateAnswer_try E question s
     = (Inl err, s\<lparr>world := w1, trace := trace s @ [EvGetGeminiTools]\<rparr>)"
  by (simp add: generateAnswer_try_def)

text \<open>The state in which the first message is sent, and the chat session it is sent on.\<close>

lemma generateAnswer_try_ready:
  assumes "GEMINI_API_KEY E \<noteq> []" and "getGeminiTools E (world s) = (Inr decls, w1)"
  shows "\<exists>chat s3. tool_rounds (trace s3) = tool_rounds (trace s)
     \<and> model_calls (trace s3) = model_calls (trace s)
     \<and> generateAnswer_try E question s =
       (case sendMessage E chat (MsgText question) s3 of
          (Inl err, chat', s4) \<Rightarrow> (Inl err, s4)
        | (Inr result, chat', s4) \<Rightarrow>
            (case agent_loop E 0 result chat' s4 of
               (Inl err, s5) \<Rightarrow> (Inl err, s5)
             | (Inr (iteration, result'), s5) \<Rightarrow>
                 (Inr \<lparr>answer = resp_text result', success = True\<rparr>, s5)))"
proof -
  let ?s1 = "s\<lparr>world := w1, trace := trace s @ [EvGetGeminiTools]\<rparr>"
  let ?s3 = "(snd (getSkillContext E ?s1))\<lparr>genAI := True\<rparr>"
  let ?chat = "startChat \<lparr>model_name = MODEL_NAME E,
      systemInstruction = buildSystemPrompt (fst (getSkillContext E ?s1)),
      model_tools = [\<lparr>functionDeclarations = decls\<rparr>]\<rparr>"
  have "tool_rounds (trace ?s3) = tool_rounds (trace s)"
    using getSkillContext_tool_rounds [of E ?s1]
    by (simp add: tool_rounds_append tool_rounds_simps)
  moreover have "model_calls (trace ?s3) = model_calls (trace s)"
    using getSkillContext_trace [of E ?s1] by (auto simp: model_calls_append)
  moreover have "generateAnswer_try E question s =
       (case sendMessage E ?chat (MsgText question) ?s3 of
          (Inl err, chat', s4) \<Rightarrow> (Inl err, s4)
        | (Inr result, chat', s4) \<Rightarrow>
            (case agent_loop E 0 result chat' s4 of
               (Inl err, s5) \<Rightarrow> (Inl err, s5)
             | (Inr (iteration, result'), s5) \<Rightarrow>
                 (Inr \<lparr>answer = resp_text result', success = True\<rparr>, s5)))"
    using assms by (simp add: generateAnswer_try_def getModel_def Let_def case_prod_beta)
  ultimately show ?thesis by blast
qed

lemma generateAnswer_tool_rounds:
  "tool_rounds (trace (snd (generateAnswer E question s))) \<le> tool_rounds (trace s) + 10"
proof (cases "GEMINI_API_KEY E = []")
  case True
  then show ?thesis by (simp add: generateAnswer_def)
next
  case key: False
  obtain out w1 where g: "getGeminiTools E (world s) = (out, w1)"
    by (cases "getGeminiTools E (world s)")
  show ?thesis
  proof (cases out)
    case (Inl err)
    then show ?thesis
      using key g generateAnswer_try_tools_fail [of E s err w1 question]
      by (simp add: generateAnswer_def tool_rounds_append tool_rounds_simps)
  next
    case (Inr decls)
    then obtain chat s3 where r3: "tool_rounds (trace s3) = tool_rounds (trace s)"
      and body: "generateAnswer_try E question s =
       (case sendMessage E chat (MsgText question) s3 of
          (Inl err, chat', s4) \<Rightarrow> (Inl err, s4)
        | (Inr result, chat', s4) \<Rightarrow>
            (case agent_loop E 0 result chat' s4 of
               (Inl err, s5) \<Rightarrow> (Inl err, s5)
             | (Inr (iteration, result'), s5) \<Rightarrow>
                 (Inr \<lparr>answer = resp_text result', success = True\<rparr>, s5)))"
      using generateAnswer_try_ready [OF key, of s decls w1 question] g by blast
    obtain out1 chat1 s4 where sm: "sendMessage E chat (MsgText question) s3 = (out1, chat1, s4)"
      using prod_cases3 by blast
    have r4: "tool_rounds (trace s4) = tool_rounds (trace s)"
      using sendMessage_trace [of E chat "MsgText question" s3] sm r3
      by (simp add: tool_rounds_append tool_rounds_simps)
    show ?thesis
    proof (cases out1)
      case (Inl err)
      then show ?thesis
        using key body sm r4 by (simp add: generateAnswer_def)
    next
      case (Inr result)
      have "snd (generateAnswer E question s) = snd (agent_loop E 0 result chat1 s4)"
        using key body sm Inr
        by (simp add: generateAnswer_def split: prod.splits sum.splits)
      then show ?thesis
        using agent_loop_tool_rounds [of E 0 result chat1 s4] r4
        by (simp add: MAX_ITERATIONS_def)
    qed
  qed
qed

lemma generateAnswer_always:
  assumes key: "GEMINI_API_KEY E \<noteq> []"
    and tools: "getGeminiTools E (world s) = (Inr decls, w1)"
    and always: "\<forall>chat m w. \<exists>r w'. llm E chat m w = (Inr r, w') \<and> requests_tool_call r"
  shows "\<exists>r m s'. generateAnswer E question s = (Inr \<lparr>answer = resp_text r, success = True\<rparr>, s')
     \<and> tool_rounds (trace s') = tool_rounds (trace s) + 10
     \<and> last (model_calls (trace s')) = (m, Inr r)"
proof -
  obtain chat s3 where r3: "tool_rounds (trace s3) = tool_rounds (trace s)"
    and body: "generateAnswer_try E question s =
       (case sendMessage E chat (MsgText question) s3 of
          (Inl err, chat', s4) \<Rightarrow> (Inl err, s4)
        | (Inr result, chat', s4) \<Rightarrow>
            (case agent_loop E 0 result chat' s4 of
               (Inl err, s5) \<Rightarrow> (Inl err, s5)
             | (Inr (iteration, result'), s5) \<Rightarrow>
                 (Inr \<lparr>answer = resp_text result', success = True\<rparr>, s5)))"
    using generateAnswer_try_ready [OF key tools, of question] by blast
  obtain r0 chat1 s4 where sm: "sendMessage E chat (MsgText question) s3 = (Inr r0, chat1, s4)"
    and rq: "requests_tool_call r0"
    using sendMessage_always [OF always] by blast
  have r4: "tool_rounds (trace s4) = tool_rounds (trace s)"
    using sendMessage_trace [of E chat "MsgText question" s3] sm r3
    by (simp add: tool_rounds_append tool_rounds_simps)
  have "0 < MAX_ITERATIONS" by (simp add: MAX_ITERATIONS_def)
  from agent_loop_always [OF always rq this, of chat1 s4]
  obtain r m s' where loop: "agent_loop E 0 r0 chat1 s4 = (Inr (MAX_ITERATIONS, r), s')"
    and rounds: "tool_rounds (trace s') = tool_rounds (trace s4) + (MAX_ITERATIONS - 0)"
    and lst: "last (model_calls (trace s')) = (m, Inr r)"
    by blast
  have "generateAnswer E question s = (Inr \<lparr>answer = resp_text r, success = True\<rparr>, s')"
    using key body sm loop by (simp add: generateAnswer_def)
  moreover have "tool_rounds (trace s') = tool_rounds (trace s) + 10"
    using rounds r4 by (simp add: MAX_ITERATIONS_def)
  ultimately show ?thesis using lst by blast
qed

text \<open>
  C1. Whatever the model, the tools and the endpoints do, one call of \<open>generateAnswer\<close>
  makes at most 10 tool-exchange rounds, and the loop leaves with \<open>iteration\<close> at most 10.
  When every response of the model requests at least one tool call (and the API key is set
  and the tool declarations were obtained), the loop leaves with \<open>iteration\<close> equal to 10,
  after exactly 10 rounds, and \<open>generateAnswer\<close> returns \<open>success = true\<close> with the text
  of the last response of the model as the answer.
\<close>

theorem generateAnswer_round_limit:
  "tool_rounds (trace (snd (generateAnswer E question s))) \<le> tool_rounds (trace s) + 10
   \<and> (\<forall>it r' s'. agent_loop E 0 result chat s0 = (Inr (it, r'), s') \<longrightarrow> it \<le> 10)
   \<and> ((\<forall>chat m w. \<exists>r w'. llm E chat m w = (Inr r, w') \<and> requests_tool_call r)
        \<and> requests_tool_call result
      \<longrightarrow> (\<exists>r' s'. agent_loop E 0 result chat s0 = (Inr (10, r'), s')))
   \<and> (GEMINI_API_KEY E \<noteq> [] \<and> (\<exists>decls w1. getGeminiTools E (world s) = (Inr decls, w1))
        \<and> (\<forall>chat m w. \<exists>r w'. llm E chat m w = (Inr r, w') \<and> requests_tool_call r)
      \<longrightarrow> (\<exists>r m s'. generateAnswer E question s
                        = (Inr \<lparr>answer = resp_text r, success = True\<rparr>, s')
                 \<and> tool_rounds (trace s') = tool_rounds (trace s) + 10
                 \<and> last (model_calls (trace s')) = (m, Inr r)))"
proof (intro conjI allI impI)
  show "tool_rounds (trace (snd (generateAnswer E question s))) \<le> tool_rounds (trace s) + 10"
    by (rule generateAnswer_tool_rounds)
next
  fix it r' s'
  assume "agent_loop E 0 result chat s0 = (Inr (it, r'), s')"
  then show "it \<le> 10"
    using agent_loop_iteration [of E 0 result chat s0 it r' s'] by (simp add: MAX_ITERATIONS_def)
next
  assume a: "(\<forall>chat m w. \<exists>r w'. llm E chat m w = (Inr r, w') \<and> requests_tool_call r)
        \<and> requests_tool_call result"
  have "0 < MAX_ITERATIONS" by (simp add: MAX_ITERATIONS_def)
  with a agent_loop_always [of E result 0 chat s0]
  show "\<exists>r' s'. agent_loop E 0 result chat s0 = (Inr (10, r'), s')"
    by (simp add: MAX_ITERATIONS_def) blast
next
  assume a: "GEMINI_API_KEY E \<noteq> [] \<and> (\<exists>decls w1. getGeminiTools E (world s) = (Inr decls, w1))
        \<and> (\<forall>chat m w. \<exists>r w'. llm E chat m w = (Inr r, w') \<and> requests_tool_call r)"
  then obtain decls w1 where "getGeminiTools E (world s) = (Inr decls, w1)" by blast
  with a generateAnswer_always [of E s decls w1 question]
  show "\<exists>r m s'. generateAnswer E question s = (Inr \<lparr>answer = resp_text r, success = True\<rparr>, s')
                 \<and> tool_rounds (trace s') = tool_rounds (trace s) + 10
                 \<and> last (model_calls (trace s')) = (m, Inr r)"
    by blast
qed

lemma always_calls_eval:
  "fst (generateAnswer always_calls (ascii ''q'') (init_state 0))
     = Inr \<lparr>answer = ascii ''20'', success = True\<rparr>"
  by (simp add: generateAnswer_def generateAnswer_try_def always_calls_def offline_def
      init_state_def getSkillContext_def getSkillContext_refresh_def getSkillContext_try_def
      getModel_def startChat_def sendMessage_def agent_loop.simps MAX_ITERATIONS_def
      call_part_def ascii_def Let_def)

theorem generateAnswer_round_limit_witness:
  "GEMINI_API_KEY always_calls \<noteq> []
   \<and> getGeminiTools always_calls (world (init_state 0)) = (Inr [], 1000)
   \<and> (\<forall>chat m w. \<exists>r w'. llm always_calls chat m w = (Inr r, w') \<and> requests_tool_call r)
   \<and> requests_tool_call
        \<lparr>functionCalls = Some [\<lparr>call_name = ascii ''search'', call_args = JObj []\<rparr>],
         resp_text = []\<rparr>
   \<and> (\<exists>r' s'. agent_loop always_calls 0
          \<lparr>functionCalls = Some [\<lparr>call_name = ascii ''search'', call_args = JObj []\<rparr>],
           resp_text = []\<rparr>
          (startChat \<lparr>model_name = [], systemInstruction = [], model_tools = []\<rparr>)
          (init_state 0) = (Inr (10, r'), s'))
   \<and> (\<exists>r m s'. generateAnswer always_calls (ascii ''q'') (init_state 0)
                    = (Inr \<lparr>answer = resp_text r, success = True\<rparr>, s')
             \<and> tool_rounds (trace s') = 10
             \<and> last (model_calls (trace s')) = (m, Inr r))
   \<and> fst (generateAnswer always_calls (ascii ''q'') (init_state 0))
       = Inr \<lparr>answer = ascii ''20'', success = True\<rparr>"
proof -
  let ?r0 = "\<lparr>functionCalls = Some [\<lparr>call_name = ascii ''search'', call_args = JObj []\<rparr>],
         resp_text = []\<rparr>"
  let ?chat = "startChat \<lparr>model_name = [], systemInstruction = [], model_tools = []\<rparr>"
  have key: "GEMINI_API_KEY always_calls \<noteq> []"
    by (simp add: always_calls_def offline_def ascii_def)
  have tools: "getGeminiTools always_calls (world (init_state 0)) = (Inr [], 1000)"
    by (simp add: always_calls_def offline_def init_state_def)
  have ex: "\<exists>decls w1. getGeminiTools always_calls (world (init_state 0)) = (Inr decls, w1)"
    using tools by blast
  have always: "\<forall>chat m w. \<exists>r w'. llm always_calls chat m w = (Inr r, w') \<and> requests_tool_call r"
    by (simp add: always_calls_def offline_def requests_tool_call_def)
  have rq: "requests_tool_call ?r0"
    by (simp add: requests_tool_call_def)
  have zero: "tool_rounds (trace (init_state (0::nat))) = 0"
    by (simp add: init_state_def tool_rounds_def)
  note limit = generateAnswer_round_limit [of always_calls "ascii ''q''" "init_state 0" ?r0
      ?chat "init_state 0"]
  have loop: "\<exists>r' s'. agent_loop always_calls 0 ?r0 ?chat (init_state 0) = (Inr (10, r'), s')"
    by (rule limit [THEN conjunct2, THEN conjunct2, THEN conjunct1, THEN mp])
      (intro conjI always rq)
  have answer: "\<exists>r m s'. generateAnswer always_calls (ascii ''q'') (init_state 0)
                    = (Inr \<lparr>answer = resp_text r, success = True\<rparr>, s')
             \<and> tool_rounds (trace s') = tool_rounds (trace (init_state (0::nat))) + 10
             \<and> last (model_calls (trace s')) = (m, Inr r)"
    by (rule limit [THEN conjunct2, THEN conjunct2, THEN conjunct2, THEN mp])
      (intro conjI key ex always)
  show ?thesis
    using key tools always rq loop answer always_calls_eval by (simp add: zero)
qed

text \<open>
  C2. \<open>generateAnswer\<close> always resolves with a result, whatever the tool endpoint, the
  scope-document endpoint and the model do: its promise never rejects. Without the API key
  it returns \<open>success = false\<close> with the configuration message and touches nothing. When
  the tool catalog cannot be obtained it returns \<open>success = false\<close> with the generic
  message, and the catalog request is the only operation made: the model is not called.
  Every result with \<open>success = false\<close> carries one of these two fixed messages.
\<close>

theorem generateAnswer_always_returns:
  "(\<exists>res. fst (generateAnswer E question s) = Inr res)
   \<and> (GEMINI_API_KEY E = [] \<longrightarrow>
        generateAnswer E question s
          = (Inr \<lparr>answer = config_error_answer, success = False\<rparr>, s))
   \<and> (GEMINI_API_KEY E \<noteq> [] \<and> fst (getGeminiTools E (world s)) = Inl err \<longrightarrow>
        fst (generateAnswer E question s)
          = Inr \<lparr>answer = generic_error_answer, success = False\<rparr>
        \<and> trace (snd (generateAnswer E question s)) = trace s @ [EvGetGeminiTools]
        \<and> model_calls (trace (snd (generateAnswer E question s))) = model_calls (trace s))
   \<and> (\<forall>res. fst (generateAnswer E question s) = Inr res \<and> \<not> success res \<longrightarrow>
        answer res = config_error_answer \<or> answer res = generic_error_answer)"
proof (intro conjI allI impI)
  show "\<exists>res. fst (generateAnswer E question s) = Inr res"
    by (simp add: generateAnswer_def split: prod.splits sum.splits)
next
  assume "GEMINI_API_KEY E = []"
  then show "generateAnswer E question s
      = (Inr \<lparr>answer = config_error_answer, success = False\<rparr>, s)"
    by (simp add: generateAnswer_def)
next
  assume a: "GEMINI_API_KEY E \<noteq> [] \<and> fst (getGeminiTools E (world s)) = Inl err"
  then have g: "getGeminiTools E (world s) = (Inl err, snd (getGeminiTools E (world s)))"
    by (metis prod.collapse)
  have t: "generateAnswer E question s
      = (Inr \<lparr>answer = generic_error_answer, success = False\<rparr>,
         s\<lparr>world := snd (getGeminiTools E (world s)), trace := trace s @ [EvGetGeminiTools]\<rparr>)"
    using a generateAnswer_try_tools_fail [OF g, of question] by (simp add: generateAnswer_def)
  show "fst (generateAnswer E question s)
      = Inr \<lparr>answer = generic_error_answer, success = False\<rparr>"
    by (simp add: t)
  show "trace (snd (generateAnswer E question s)) = trace s @ [EvGetGeminiTools]"
    by (simp add: t)
  show "model_calls (trace (snd (generateAnswer E question s))) = model_calls (trace s)"
    by (simp add: t model_calls_append)
next
  fix res
  assume a: "fst (generateAnswer E question s) = Inr res \<and> \<not> success res"
  show "answer res = config_error_answer \<or> answer res = generic_error_answer"
  proof (cases "GEMINI_API_KEY E = []")
    case True
    then show ?thesis using a by (auto simp: generateAnswer_def)
  next
    case False
    obtain out s' where tr: "generateAnswer_try E question s = (out, s')"
      by (cases "generateAnswer_try E question s")
    show ?thesis
    proof (cases out)
      case (Inl e)
      then show ?thesis using a False tr by (auto simp: generateAnswer_def)
    next
      case (Inr r)
      then have "res = r" using a False tr by (simp add: generateAnswer_def)
      moreover have "success r"
        using tr Inr
        by (auto simp: generateAnswer_try_def Let_def split: prod.splits sum.splits)
      ultimately show ?thesis using a by simp
    qed
  qed
qed

theorem generateAnswer_always_returns_witness:
  "GEMINI_API_KEY no_key = []
   \<and> generateAnswer no_key (ascii ''q'') (init_state 0)
       = (Inr \<lparr>answer = config_error_answer, success = False\<rparr>, init_state 0)
   \<and> GEMINI_API_KEY offline \<noteq> []
   \<and> fst (getGeminiTools offline (world (init_state 0))) = Inl (JsError (ascii ''unreachable''))
   \<and> fst (generateAnswer offline (ascii ''q'') (init_state 0))
       = Inr \<lparr>answer = generic_error_answer, success = False\<rparr>
   \<and> trace (snd (generateAnswer offline (ascii ''q'') (init_state 0))) = [EvGetGeminiTools]
   \<and> model_calls (trace (snd (generateAnswer offline (ascii ''q'') (init_state 0)))) = []
   \<and> \<not> success \<lparr>answer = generic_error_answer, success = False\<rparr>
   \<and> (answer \<lparr>answer = generic_error_answer, success = False\<rparr> = config_error_answer
      \<or> answer \<lparr>answer = generic_error_answer, success = False\<rparr> = generic_error_answer)"
proof -
  have k0: "GEMINI_API_KEY no_key = []"
    by (simp add: no_key_def offline_def)
  have k1: "GEMINI_API_KEY offline \<noteq> []"
    by (simp add: offline_def ascii_def)
  have g: "fst (getGeminiTools offline (world (init_state 0))) = Inl (JsError (ascii ''unreachable''))"
    by (simp add: offline_def init_state_def)
  have tr: "trace (init_state (0::nat)) = []"
    by (simp add: init_state_def)
  show ?thesis
    using k0 k1 g
      generateAnswer_always_returns [of no_key "ascii ''q''" "init_state 0"]
      generateAnswer_always_returns [of offline "ascii ''q''" "init_state 0"
        "JsError (ascii ''unreachable'')"]
    by (simp add: tr)
qed

text \<open>
  C6. The tool calls of one model turn are executed one after the other in the order of the
  requests, each exactly once, repeated calls included: the calls recorded are the
  requests in their order, and the parts sent back are as many as the requests, the
  \<open>i\<close>-th part answering the \<open>i\<close>-th request. When that invocation succeeds its part
  carries the content of the tool result; when it fails its part carries the message of
  the error. In either case the loop goes on: it sends these parts to the model as the
  next exchange.
\<close>

theorem execute_calls_in_request_order:
  "length (fst (execute_calls E calls [] s)) = length calls
   \<and> tool_calls (trace (snd (execute_calls E calls [] s)))
       = tool_calls (trace s) @ map (\<lambda>c. (call_name c, call_args c)) calls
   \<and> (\<forall>i < length calls.
        (\<forall>toolResult.
           fst (callMcpTool E (call_name (calls ! i)) (call_args (calls ! i))
                  (world (snd (execute_calls E (take i calls) [] s)))) = Inr toolResult \<longrightarrow>
           fst (execute_calls E calls [] s) ! i
             = FunctionResponse (call_name (calls ! i)) (Content (content toolResult)))
      \<and> (\<forall>err.
           fst (callMcpTool E (call_name (calls ! i)) (call_args (calls ! i))
                  (world (snd (execute_calls E (take i calls) [] s)))) = Inl err \<longrightarrow>
           fst (execute_calls E calls [] s) ! i
             = FunctionResponse (call_name (calls ! i)) (ErrorMessage (message err))))
   \<and> (iteration < 10 \<and> functionCalls result = Some calls \<and> calls \<noteq> [] \<longrightarrow>
        agent_loop E iteration result chat s =
          (case sendMessage E chat (MsgParts (fst (execute_calls E calls [] s)))
                  (snd (execute_calls E calls [] s)) of
             (Inl err, chat', s2) \<Rightarrow> (Inl err, s2)
           | (Inr result', chat', s2) \<Rightarrow> agent_loop E (iteration + 1) result' chat' s2))"
proof (intro conjI allI impI)
  show "length (fst (execute_calls E calls [] s)) = length calls"
    by (rule execute_calls_length)
next
  show "tool_calls (trace (snd (execute_calls E calls [] s)))
       = tool_calls (trace s) @ map (\<lambda>c. (call_name c, call_args c)) calls"
    by (simp add: execute_calls_trace tool_calls_append tool_calls_tool_events)
next
  fix i toolResult
  assume "i < length calls"
    and "fst (callMcpTool E (call_name (calls ! i)) (call_args (calls ! i))
                  (world (snd (execute_calls E (take i calls) [] s)))) = Inr toolResult"
  then show "fst (execute_calls E calls [] s) ! i
      = FunctionResponse (call_name (calls ! i)) (Content (content toolResult))"
    using execute_calls_nth [of i calls E s] by (simp add: call_part_def)
next
  fix i err
  assume "i < length calls"
    and "fst (callMcpTool E (call_name (calls ! i)) (call_args (calls ! i))
                  (world (snd (execute_calls E (take i calls) [] s)))) = Inl err"
  then show "fst (execute_calls E calls [] s) ! i
      = FunctionResponse (call_name (calls ! i)) (ErrorMessage (message err))"
    using execute_calls_nth [of i calls E s] by (simp add: call_part_def)
next
  assume "iteration < 10 \<and> functionCalls result = Some calls \<and> calls \<noteq> []"
  then show "agent_loop E iteration result chat s =
          (case sendMessage E chat (MsgParts (fst (execute_calls E calls [] s)))
                  (snd (execute_calls E calls [] s)) of
             (Inl err, chat', s2) \<Rightarrow> (Inl err, s2)
           | (Inr result', chat', s2) \<Rightarrow> agent_loop E (iteration + 1) result' chat' s2)"
    using agent_loop_step [of iteration result calls E chat s] by (simp add: MAX_ITERATIONS_def)
qed

lemma list_of_three: "length xs = 3 \<Longrightarrow> xs = [xs ! 0, xs ! 1, xs ! 2]"
  by (auto simp: numeral_3_eq_3 length_Suc_conv)

theorem execute_calls_in_request_order_witness:
  "fst (callMcpTool search_only (ascii ''search'') (JStr (ascii ''vast'')) 0)
     = Inr \<lparr>content = ascii ''found'', sources = []\<rparr>
   \<and> fst (callMcpTool search_only (ascii ''lookup'') JNull 1000)
     = Inl (JsError (ascii ''unknown tool''))
   \<and> fst (execute_calls search_only
        [\<lparr>call_name = ascii ''search'', call_args = JStr (ascii ''vast'')\<rparr>,
         \<lparr>call_name = ascii ''lookup'', call_args = JNull\<rparr>,
         \<lparr>call_name = ascii ''search'', call_args = JStr (ascii ''vast'')\<rparr>] [] (init_state 0))
     = [FunctionResponse (ascii ''search'') (Content (ascii ''found'')),
        FunctionResponse (ascii ''lookup'') (ErrorMessage (ascii ''unknown tool'')),
        FunctionResponse (ascii ''search'') (Content (ascii ''found''))]
   \<and> tool_calls (trace (snd (execute_calls search_only
        [\<lparr>call_name = ascii ''search'', call_args = JStr (ascii ''vast'')\<rparr>,
         \<lparr>call_name = ascii ''lookup'', call_args = JNull\<rparr>,
         \<lparr>call_name = ascii ''search'', call_args = JStr (ascii ''vast'')\<rparr>] [] (init_state 0))))
     = [(ascii ''search'', JStr (ascii ''vast'')), (ascii ''lookup'', JNull),
        (ascii ''search'', JStr (ascii ''vast''))]"
proof -
  let ?calls = "[\<lparr>call_name = ascii ''search'', call_args = JStr (ascii ''vast'')\<rparr>,
         \<lparr>call_name = ascii ''lookup'', call_args = JNull\<rparr>,
         \<lparr>call_name = ascii ''search'', call_args = JStr (ascii ''vast'')\<rparr>]"
  let ?parts = "fst (execute_calls search_only ?calls [] (init_state 0))"
  note order = execute_calls_in_request_order [of search_only ?calls "init_state 0"]
  have len: "length ?parts = 3"
    using order by (simp del: execute_calls.simps)
  have w: "world (snd (execute_calls search_only (take 0 ?calls) [] (init_state 0))) = 0"
    "world (snd (execute_calls search_only (take 1 ?calls) [] (init_state 0))) = 1000"
    "world (snd (execute_calls search_only (take 2 ?calls) [] (init_state 0))) = 2000"
    by (simp_all add: search_only_def offline_def init_state_def ascii_def)
  have o: "fst (callMcpTool search_only (ascii ''search'') (JStr (ascii ''vast'')) w)
       = Inr \<lparr>content = ascii ''found'', sources = []\<rparr>"
    "fst (callMcpTool search_only (ascii ''lookup'') JNull w)
       = Inl (JsError (ascii ''unknown tool''))" for w
    by (simp_all add: search_only_def offline_def ascii_def)
  have nth: "\<forall>i < length ?calls.
        (\<forall>toolResult.
           fst (callMcpTool search_only (call_name (?calls ! i)) (call_args (?calls ! i))
                  (world (snd (execute_calls search_only (take i ?calls) [] (init_state 0)))))
             = Inr toolResult \<longrightarrow>
           ?parts ! i = FunctionResponse (call_name (?calls ! i)) (Content (content toolResult)))
      \<and> (\<forall>err.
           fst (callMcpTool search_only (call_name (?calls ! i)) (call_args (?calls ! i))
                  (world (snd (execute_calls search_only (take i ?calls) [] (init_state 0)))))
             = Inl err \<longrightarrow>
           ?parts ! i = FunctionResponse (call_name (?calls ! i)) (ErrorMessage (message err)))"
    using order by blast
  have p0: "?parts ! 0 = FunctionResponse (ascii ''search'') (Content (ascii ''found''))"
    using nth [rule_format, of 0, THEN conjunct1, rule_format,
        of "\<lparr>content = ascii ''found'', sources = []\<rparr>"] o(1) [of 0] w(1)
    by (simp del: execute_calls.simps)
  have p1: "?parts ! 1 = FunctionResponse (ascii ''lookup'') (ErrorMessage (ascii ''unknown tool''))"
    using nth [rule_format, of 1, THEN conjunct2, rule_format,
        of "JsError (ascii ''unknown tool'')"] o(2) [of 1000] w(2)
    by (simp del: execute_calls.simps)
  have p2: "?parts ! 2 = FunctionResponse (ascii ''search'') (Content (ascii ''found''))"
    using nth [rule_format, of 2, THEN conjunct1, rule_format,
        of "\<lparr>content = ascii ''found'', sources = []\<rparr>"] o(1) [of 2000] w(3)
    by (simp del: execute_calls.simps)
  have parts: "?parts = [?parts ! 0, ?parts ! 1, ?parts ! 2]"
    using len by (rule list_of_three)
  have calls: "tool_calls (trace (snd (execute_calls search_only ?calls [] (init_state 0))))
      = [(ascii ''search'', JStr (ascii ''vast'')), (ascii ''lookup'', JNull),
         (ascii ''search'', JStr (ascii ''vast''))]"
    using order by (simp del: execute_calls.simps add: init_state_def)
  show ?thesis
    using o(1) [of 0] o(2) [of 1000] parts p0 p1 p2 calls
    by (simp del: execute_calls.simps)
qed

end
